theory Spec2Isabelle
  imports Main
begin

section \<open>The shell of user/sh.c: data\<close>

text \<open>
  The flags of \<^verbatim>\<open>open\<close> that the shell uses. Their values are in kernel/fcntl.h; a mode is
  modelled by the set of the flags that the source joins with \<^verbatim>\<open>|\<close>.
\<close>

datatype oflag = O_RDONLY | O_WRONLY | O_CREATE | O_TRUNC

type_synonym mode = "oflag set"

text \<open>\<^verbatim>\<open>#define MAXARGS 10\<close>: the number of slots of \<^verbatim>\<open>argv\<close>, the terminating null included.\<close>

definition MAXARGS :: nat where
  "MAXARGS = 10"

text \<open>
  The command tree of \<^verbatim>\<open>user/sh.c\<close>. The C code has one struct per node kind behind a
  shared \<^verbatim>\<open>type\<close> tag (EXEC, REDIR, PIPE, LIST, BACK); here each struct is a constructor.
  An \<^verbatim>\<open>execcmd\<close> carries its NULL-terminated \<^verbatim>\<open>argv\<close> (the list of the arguments before the
  NULL) and the \<^verbatim>\<open>back\<close> flag. A \<^verbatim>\<open>redircmd\<close> carries the wrapped command, the file name,
  the mode and the descriptor. The slices \<^verbatim>\<open>(q, eq)\<close> into the line buffer are modelled by
  the characters between them, which is what \<^verbatim>\<open>nulterminate\<close> turns them into.
\<close>

datatype cmd =
    EXEC "string list" bool
  | REDIR cmd string mode int
  | PIPE cmd cmd
  | LIST cmd cmd
  | BACK cmd

text \<open>What a descriptor of a process refers to.\<close>

datatype openfile = Console | File string mode | PipeRead | PipeWrite

text \<open>
  The state of the process that runs the shell code, and the results the host will give
  to its system calls. The global \<^verbatim>\<open>bg_jobs[NPROC]\<close> is the list \<open>bg_jobs\<close>, one element
  per slot (\<^verbatim>\<open>NPROC\<close> comes from kernel/param.h and is the length of the list). \<open>ofile\<close> is
  the descriptor table of the process and \<open>cwd\<close> the directory of the last successful
  \<^verbatim>\<open>chdir\<close>. \<open>out\<close> lists what the process wrote, as pairs of descriptor and text.

  The host is outside the program: each \<open>_results\<close> field lists what the successive calls
  of one system call return in this process. \<^verbatim>\<open>fork\<close> returns 0 in the child, the child's
  pid in the parent and -1 on failure, so the same code models the parent and the child,
  depending on the result handed out. Past the end of a list the call fails.
\<close>

record sh =
  bg_jobs :: "int list"
  ofile :: "int \<Rightarrow> openfile option"
  cwd :: string
  out :: "(int \<times> string) list"
  fork_results :: "int list"
  wait_results :: "(int \<times> int) list"
  wait_noblock_results :: "(int \<times> int) list"
  open_results :: "int list"
  dup_results :: "int list"
  pipe_results :: "(int \<times> int) option list"
  chdir_results :: "int list"
  exec_results :: "bool list"

text \<open>
  How a call of shell code ends: it returns to its caller, or the process ends in
  \<^verbatim>\<open>exit(status)\<close>, or \<^verbatim>\<open>exec\<close> replaced the image of the process.
\<close>

datatype outcome = Returned sh | Exited int sh | Execd "string list" sh

section \<open>Printing\<close>

text \<open>\<^verbatim>\<open>%d\<close> of printf: a decimal numeral, with a minus sign for a negative number.\<close>

definition digit :: "nat \<Rightarrow> char" where
  "digit n = char_of (of_char (CHR ''0'') + n)"

function dec :: "nat \<Rightarrow> string" where
  "dec n = (if n < 10 then [digit n] else dec (n div 10) @ [digit (n mod 10)])"
  by pat_completeness auto
termination
  by (relation "measure id") auto

declare dec.simps [simp del]

definition show_int :: "int \<Rightarrow> string" where
  "show_int i = (if i < 0 then CHR ''-'' # dec (nat (- i)) else dec (nat i))"

definition printf :: "string \<Rightarrow> sh \<Rightarrow> sh" where
  "printf s st = st\<lparr>out := out st @ [(1, s)]\<rparr>"

definition fprintf :: "int \<Rightarrow> string \<Rightarrow> sh \<Rightarrow> sh" where
  "fprintf fd s st = st\<lparr>out := out st @ [(fd, s)]\<rparr>"

definition nl :: string where
  "nl = [CHR 0x0A]"

section \<open>The job table\<close>

text \<open>
  \<^verbatim>\<open>add_job\<close>, \<^verbatim>\<open>remove_job\<close>, \<^verbatim>\<open>is_bg_job\<close> and \<^verbatim>\<open>print_jobs\<close> each scan the slots from 0 to
  NPROC - 1 and stop at the first slot that matches; the scan is the recursion over the
  list of slots.
\<close>

fun add_job :: "int \<Rightarrow> int list \<Rightarrow> int list" where
  "add_job pid [] = []"
| "add_job pid (j # js) = (if j = 0 then pid # js else j # add_job pid js)"

fun remove_job :: "int \<Rightarrow> int list \<Rightarrow> int list" where
  "remove_job pid [] = []"
| "remove_job pid (j # js) = (if j = pid then 0 # js else j # remove_job pid js)"

fun is_bg_job :: "int \<Rightarrow> int list \<Rightarrow> bool" where
  "is_bg_job pid [] = False"
| "is_bg_job pid (j # js) = (if j = pid then True else is_bg_job pid js)"

fun print_jobs_slots :: "int list \<Rightarrow> sh \<Rightarrow> sh" where
  "print_jobs_slots [] st = st"
| "print_jobs_slots (j # js) st =
     (if j \<noteq> 0 then print_jobs_slots js (printf (show_int j @ nl) st)
      else print_jobs_slots js st)"

definition print_jobs :: "sh \<Rightarrow> sh" where
  "print_jobs st = print_jobs_slots (bg_jobs st) st"

definition bg_notice :: "int \<Rightarrow> int \<Rightarrow> string" where
  "bg_notice pid status =
     ''[bg '' @ show_int pid @ ''] exited with status '' @ show_int status @ nl"

definition reap_background_job :: "int \<Rightarrow> int \<Rightarrow> sh \<Rightarrow> sh" where
  "reap_background_job pid status st =
     (if is_bg_job pid (bg_jobs st)
      then printf (bg_notice pid status) (st\<lparr>bg_jobs := remove_job pid (bg_jobs st)\<rparr>)
      else st)"

section \<open>Waiting\<close>

text \<open>
  \<^verbatim>\<open>wait(&status)\<close> and \<^verbatim>\<open>wait_noblock(&status)\<close>: the next result of the host, a pid and a
  status; -1 when the host has no more results for this process.
\<close>

definition wait :: "sh \<Rightarrow> (int \<times> int) \<times> sh" where
  "wait st =
     (case wait_results st of
        [] \<Rightarrow> ((- 1, 0), st)
      | r # rs \<Rightarrow> (r, st\<lparr>wait_results := rs\<rparr>))"

definition wait_noblock :: "sh \<Rightarrow> (int \<times> int) \<times> sh" where
  "wait_noblock st =
     (case wait_noblock_results st of
        [] \<Rightarrow> ((- 1, 0), st)
      | r # rs \<Rightarrow> (r, st\<lparr>wait_noblock_results := rs\<rparr>))"

lemma wait_results_reap [simp]:
  "wait_results (reap_background_job pid status st) = wait_results st"
  by (simp add: reap_background_job_def printf_def)

lemma wait_noblock_results_reap [simp]:
  "wait_noblock_results (reap_background_job pid status st) = wait_noblock_results st"
  by (simp add: reap_background_job_def printf_def)

function reap_zombies :: "sh \<Rightarrow> sh" where
  "reap_zombies st =
     (case wait_noblock st of
        ((pid, status), st1) \<Rightarrow>
          if pid > 0 then reap_zombies (reap_background_job pid status st1) else st1)"
  by pat_completeness auto
termination
  by (relation "measure (\<lambda>st. length (wait_noblock_results st))")
     (auto simp: wait_noblock_def split: list.splits)

declare reap_zombies.simps [simp del]

function wait_for_foreground :: "int \<Rightarrow> sh \<Rightarrow> sh" where
  "wait_for_foreground foreground_pid st =
     (case wait st of
        ((reaped_pid, status), st1) \<Rightarrow>
          if reaped_pid > 0 then
            (if reaped_pid = foreground_pid then st1
             else wait_for_foreground foreground_pid (reap_background_job reaped_pid status st1))
          else st1)"
  by pat_completeness auto
termination
  by (relation "measure (\<lambda>(p, st). length (wait_results st))")
     (auto simp: wait_def split: list.splits)

declare wait_for_foreground.simps [simp del]

section \<open>The system calls of runcmd\<close>

text \<open>
  Each call takes its next result from the host and updates the descriptor table or the
  working directory as the host would: \<^verbatim>\<open>close\<close> frees a descriptor, a successful \<^verbatim>\<open>open\<close>,
  \<^verbatim>\<open>dup\<close> or \<^verbatim>\<open>pipe\<close> binds the descriptors it returns. \<^verbatim>\<open>exec\<close> returns only when it fails.
\<close>

definition fork :: "sh \<Rightarrow> int \<times> sh" where
  "fork st =
     (case fork_results st of
        [] \<Rightarrow> (- 1, st)
      | r # rs \<Rightarrow> (r, st\<lparr>fork_results := rs\<rparr>))"

definition close :: "int \<Rightarrow> sh \<Rightarrow> sh" where
  "close fd st = st\<lparr>ofile := (ofile st)(fd := None)\<rparr>"

definition openf :: "string \<Rightarrow> mode \<Rightarrow> sh \<Rightarrow> int \<times> sh" where
  "openf path omode st =
     (case open_results st of
        [] \<Rightarrow> (- 1, st)
      | r # rs \<Rightarrow>
          (r, st\<lparr>ofile := (if r \<ge> 0 then (ofile st)(r \<mapsto> File path omode) else ofile st),
                  open_results := rs\<rparr>))"

definition dup :: "int \<Rightarrow> sh \<Rightarrow> int \<times> sh" where
  "dup fd st =
     (case dup_results st of
        [] \<Rightarrow> (- 1, st)
      | r # rs \<Rightarrow>
          (r, st\<lparr>ofile := (if r \<ge> 0 then (ofile st)(r := ofile st fd) else ofile st),
                  dup_results := rs\<rparr>))"

definition pipe :: "sh \<Rightarrow> int \<times> (int \<times> int) \<times> sh" where
  "pipe st =
     (case pipe_results st of
        [] \<Rightarrow> (- 1, (0, 0), st)
      | None # rs \<Rightarrow> (- 1, (0, 0), st\<lparr>pipe_results := rs\<rparr>)
      | Some (p0, p1) # rs \<Rightarrow>
          (0, (p0, p1),
           st\<lparr>ofile := (ofile st)(p0 \<mapsto> PipeRead, p1 \<mapsto> PipeWrite), pipe_results := rs\<rparr>))"

definition chdir :: "string \<Rightarrow> sh \<Rightarrow> int \<times> sh" where
  "chdir path st =
     (case chdir_results st of
        [] \<Rightarrow> (- 1, st)
      | r # rs \<Rightarrow> (r, st\<lparr>cwd := (if r \<ge> 0 then path else cwd st), chdir_results := rs\<rparr>))"

definition exec :: "string \<Rightarrow> string list \<Rightarrow> sh \<Rightarrow> outcome + sh" where
  "exec path argv st =
     (case exec_results st of
        [] \<Rightarrow> Inr st
      | ok # rs \<Rightarrow>
          if ok then Inl (Execd argv (st\<lparr>exec_results := rs\<rparr>))
          else Inr (st\<lparr>exec_results := rs\<rparr>))"

definition panic :: "string \<Rightarrow> sh \<Rightarrow> outcome" where
  "panic s st = Exited 1 (fprintf 2 (s @ nl) st)"

definition fork1 :: "sh \<Rightarrow> outcome + int \<times> sh" where
  "fork1 st =
     (case fork st of
        (pid, st1) \<Rightarrow> if pid = - 1 then Inl (panic ''fork'' st1) else Inr (pid, st1))"

section \<open>runcmd\<close>

text \<open>
  The BACK case of \<^verbatim>\<open>runcmd\<close> first writes the \<^verbatim>\<open>back\<close> flag into the wrapped tree
  (\<open>mark_back\<close>): into the wrapped command when it is an EXEC, into the left and the
  right command of a wrapped PIPE when they are EXECs (\<open>set_back\<close>). Then it runs the
  wrapped tree.
\<close>

definition set_back :: "cmd \<Rightarrow> cmd" where
  "set_back c = (case c of EXEC argv b \<Rightarrow> EXEC argv True | _ \<Rightarrow> c)"

definition mark_back :: "cmd \<Rightarrow> cmd" where
  "mark_back c =
     (case c of
        EXEC argv b \<Rightarrow> EXEC argv True
      | PIPE l r \<Rightarrow> PIPE (set_back l) (set_back r)
      | _ \<Rightarrow> c)"

lemma size_set_back [simp]: "size (set_back c) = size c"
  by (cases c) (simp_all add: set_back_def)

lemma size_mark_back [simp]: "size (mark_back c) = size c"
  by (cases c) (simp_all add: mark_back_def)

text \<open>
  The PIPE case reads whether the pipeline is a background one from the left command
  when that is an EXEC, else from the right command when that is an EXEC.
\<close>

definition is_background :: "cmd \<Rightarrow> cmd \<Rightarrow> bool" where
  "is_background l r =
     (case l of
        EXEC argv b \<Rightarrow> b
      | _ \<Rightarrow> (case r of EXEC argv b \<Rightarrow> b | _ \<Rightarrow> False))"

definition job_line :: "int \<Rightarrow> string" where
  "job_line pid = ''['' @ show_int pid @ '']'' @ nl"

text \<open>
  \<^verbatim>\<open>runcmd\<close>, for the process that called it. Where the C code calls \<^verbatim>\<open>exit\<close> the outcome
  is \<open>Exited\<close>; where \<^verbatim>\<open>exec\<close> succeeds it is \<open>Execd\<close>; \<open>Returned\<close> is the return to the
  caller. The parser never hands out a null command or an unknown tag, so the tests for
  them have no case here.
\<close>

function runcmd :: "cmd \<Rightarrow> sh \<Rightarrow> outcome" where
  "runcmd (EXEC argv back) st =
     (case argv of
        [] \<Rightarrow> Exited 1 st
      | a0 # args \<Rightarrow>
          if a0 = ''cd'' then
            (case args of
               [] \<Rightarrow> Returned (fprintf 2 (''cannot cd '' @ nl) st)
             | a1 # _ \<Rightarrow>
                 (case chdir a1 st of
                    (r, st1) \<Rightarrow>
                      if r < 0 then Returned (fprintf 2 (''cannot cd '' @ a1 @ nl) st1)
                      else Returned st1))
          else if a0 = ''jobs'' then Returned (print_jobs st)
          else
            (case fork1 st of
               Inl e \<Rightarrow> e
             | Inr (pid, st1) \<Rightarrow>
                 if pid = 0 then
                   (case exec a0 argv st1 of
                      Inl replaced \<Rightarrow> replaced
                    | Inr st2 \<Rightarrow> Exited 0 (fprintf 2 (''exec '' @ a0 @ '' failed'' @ nl) st2))
                 else if back then
                   Returned (printf (job_line pid) (st1\<lparr>bg_jobs := add_job pid (bg_jobs st1)\<rparr>))
                 else Returned (wait_for_foreground pid st1)))"
| "runcmd (REDIR c file omode fd) st =
     (case openf file omode (close fd st) of
        (r, st1) \<Rightarrow>
          if r < 0 then Returned (fprintf 2 (''open '' @ file @ '' failed'' @ nl) st1)
          else runcmd c st1)"
| "runcmd (LIST l r) st =
     (case runcmd l st of
        Returned st1 \<Rightarrow> runcmd r st1
      | Exited n st1 \<Rightarrow> Exited n st1
      | Execd argv st1 \<Rightarrow> Execd argv st1)"
| "runcmd (PIPE l r) st =
     (case pipe st of
        (ret, (p0, p1), st1) \<Rightarrow>
          if ret < 0 then panic ''pipe'' st1
          else
            (case fork1 st1 of
               Inl e \<Rightarrow> e
             | Inr (pid_left, st2) \<Rightarrow>
                 if pid_left = 0 then
                   (case runcmd l (close p1 (close p0 (snd (dup p1 (close 1 st2))))) of
                      Returned st3 \<Rightarrow> Exited 0 st3
                    | Exited n st3 \<Rightarrow> Exited n st3
                    | Execd argv st3 \<Rightarrow> Execd argv st3)
                 else
                   (case fork1 st2 of
                      Inl e \<Rightarrow> e
                    | Inr (pid_right, st3) \<Rightarrow>
                        if pid_right = 0 then
                          (case runcmd r (close p1 (close p0 (snd (dup p0 (close 0 st3))))) of
                             Returned st4 \<Rightarrow> Exited 0 st4
                           | Exited n st4 \<Rightarrow> Exited n st4
                           | Execd argv st4 \<Rightarrow> Execd argv st4)
                        else
                          (let st4 = close p1 (close p0 st3) in
                           if is_background l r then
                             Returned (printf (job_line pid_left)
                               (st4\<lparr>bg_jobs := add_job pid_right (add_job pid_left (bg_jobs st4))\<rparr>))
                           else
                             Returned (wait_for_foreground pid_right
                               (wait_for_foreground pid_left st4))))))"
| "runcmd (BACK c) st = runcmd (mark_back c) st"
  by pat_completeness auto
termination
  by (relation "measure (\<lambda>(c, st). size c)") auto

declare runcmd.simps [simp del]

section \<open>The tokenizer\<close>

text \<open>
  The parser walks the line buffer with a cursor \<^verbatim>\<open>*ps\<close> and the end \<^verbatim>\<open>es\<close> of the string.
  The cursor is modelled by the characters from \<^verbatim>\<open>*ps\<close> to \<^verbatim>\<open>es\<close>: the empty list is the
  cursor at \<^verbatim>\<open>es\<close>, where the C string has its NUL (\<open>deref\<close>). \<^verbatim>\<open>strchr\<close> of C also finds the
  terminating NUL of the string it searches.
\<close>

definition NUL :: char where
  "NUL = CHR 0x00"

definition whitespace :: string where
  "whitespace = [CHR '' '', CHR 0x09, CHR 0x0D, CHR 0x0A, CHR 0x0B]"

definition symbols :: string where
  "symbols = ''<|>&;()''"

definition strchr :: "string \<Rightarrow> char \<Rightarrow> bool" where
  "strchr s c \<longleftrightarrow> c = NUL \<or> c \<in> set s"

definition deref :: "string \<Rightarrow> char" where
  "deref s = (case s of [] \<Rightarrow> NUL | c # cs \<Rightarrow> c)"

text \<open>
  \<^verbatim>\<open>while(s < es && strchr(whitespace, *s)) s++\<close>, the loop that \<^verbatim>\<open>gettoken\<close> runs before and
  after a token and \<^verbatim>\<open>peek\<close> runs first.
\<close>

definition skip_whitespace :: "string \<Rightarrow> string" where
  "skip_whitespace s = dropWhile (strchr whitespace) s"

text \<open>
  The switch of \<^verbatim>\<open>gettoken\<close> on \<^verbatim>\<open>*s\<close> (\<open>token_at\<close>): the code returned, the token between
  \<^verbatim>\<open>q\<close> and \<^verbatim>\<open>eq\<close>, and the cursor behind it. A word runs while the characters are neither
  whitespace nor symbols (\<open>word_char\<close>).
\<close>

definition word_char :: "char \<Rightarrow> bool" where
  "word_char c \<longleftrightarrow> \<not> strchr whitespace c \<and> \<not> strchr symbols c"

definition token_at :: "string \<Rightarrow> char \<times> string \<times> string" where
  "token_at s =
     (if deref s = NUL then (NUL, [], s)
      else if deref s \<in> set ''|();&<'' then (deref s, [deref s], tl s)
      else if deref s = CHR ''>'' then
        (if deref (tl s) = CHR ''>'' then (CHR ''+'', ''>>'', tl (tl s))
         else (CHR ''>'', ''>'', tl s))
      else (CHR ''a'', takeWhile word_char s, dropWhile word_char s))"

definition gettoken :: "string \<Rightarrow> char \<times> string \<times> string" where
  "gettoken ps =
     (case token_at (skip_whitespace ps) of
        (ret, q, s) \<Rightarrow> (ret, q, skip_whitespace s))"

text \<open>\<^verbatim>\<open>peek\<close> moves the cursor over the whitespace and tells whether a character of \<open>toks\<close> is next.\<close>

definition peek :: "string \<Rightarrow> string \<Rightarrow> bool \<times> string" where
  "peek ps toks =
     (let s = skip_whitespace ps in (deref s \<noteq> NUL \<and> strchr toks (deref s), s))"

text \<open>\<^verbatim>\<open>execcmd()\<close>: a zeroed struct, so no arguments and \<^verbatim>\<open>back = 0\<close>.\<close>

definition execcmd :: cmd where
  "execcmd = EXEC [] False"

lemma length_skip_whitespace: "length (skip_whitespace s) \<le> length s"
  by (simp add: skip_whitespace_def length_dropWhile_le)

lemma skip_whitespace_idem [simp]: "skip_whitespace (skip_whitespace s) = skip_whitespace s"
  by (simp add: skip_whitespace_def dropWhile_idem)

lemma deref_skip_whitespace:
  "deref (skip_whitespace s) \<noteq> NUL \<Longrightarrow> \<not> strchr whitespace (deref (skip_whitespace s))"
proof -
  assume d: "deref (skip_whitespace s) \<noteq> NUL"
  then obtain c cs where e: "dropWhile (strchr whitespace) s = c # cs"
    by (cases "dropWhile (strchr whitespace) s") (auto simp: deref_def skip_whitespace_def)
  then have "\<not> strchr whitespace c" by (simp add: dropWhile_eq_Cons_conv)
  with e show ?thesis by (simp add: skip_whitespace_def deref_def)
qed

lemma word_char_start:
  assumes "deref s \<noteq> NUL" "\<not> strchr whitespace (deref s)"
    "deref s \<notin> set ''|();&<''" "deref s \<noteq> CHR ''>''"
  shows "word_char (deref s)"
  using assms by (auto simp: word_char_def strchr_def symbols_def)

lemma token_at_length_le: "token_at s = (tok, q, r) \<Longrightarrow> length r \<le> length s"
  by (auto simp: token_at_def length_dropWhile_le split: if_splits)

lemma token_at_consumes:
  assumes "token_at s = (tok, q, r)" and "deref s \<noteq> NUL" and "\<not> strchr whitespace (deref s)"
  shows "length r < length s"
proof -
  from assms(2) obtain c cs where s: "s = c # cs"
    by (cases s) (auto simp: deref_def)
  show ?thesis
  proof (cases "deref s \<in> set ''|();&<'' \<or> deref s = CHR ''>''")
    case True
    with assms(1,2) s show ?thesis
      by (auto simp: token_at_def split: if_splits)
  next
    case False
    with assms have "word_char (deref s)" by (intro word_char_start) auto
    with s have "dropWhile word_char s = dropWhile word_char cs" by (simp add: deref_def)
    moreover from False assms(1,2) have "r = dropWhile word_char s"
      by (auto simp: token_at_def split: if_splits)
    ultimately show ?thesis using s by (simp add: length_dropWhile_le less_Suc_eq_le)
  qed
qed

lemma peek_length: "peek ps toks = (b, s) \<Longrightarrow> length s \<le> length ps"
  by (auto simp: peek_def Let_def length_skip_whitespace)

lemma gettoken_length: "gettoken ps = (tok, q, s) \<Longrightarrow> length s \<le> length ps"
proof -
  assume g: "gettoken ps = (tok, q, s)"
  obtain t q' r where t: "token_at (skip_whitespace ps) = (t, q', r)"
    by (cases "token_at (skip_whitespace ps)")
  with g have s: "s = skip_whitespace r" by (simp add: gettoken_def)
  have "length r \<le> length (skip_whitespace ps)" using t by (rule token_at_length_le)
  with s show ?thesis
    using length_skip_whitespace [of r] length_skip_whitespace [of ps] by simp
qed

lemma gettoken_after_peek:
  assumes "peek ps toks = (True, s)" and "gettoken s = (tok, q, r)"
  shows "length r < length ps"
proof -
  from assms(1) have s: "s = skip_whitespace ps" and d: "deref s \<noteq> NUL"
    by (auto simp: peek_def Let_def)
  from d s have w: "\<not> strchr whitespace (deref s)" by (simp add: deref_skip_whitespace)
  obtain t q' r' where t: "token_at s = (t, q', r')" by (cases "token_at s")
  with assms(2) s have r: "r = skip_whitespace r'" by (simp add: gettoken_def)
  have "length r' < length s" using t d w by (rule token_at_consumes)
  with r s show ?thesis
    using length_skip_whitespace [of r'] length_skip_whitespace [of ps] by simp
qed

lemma gettoken_word_consumes:
  assumes "gettoken ps = (tok, q, r)" and "tok \<noteq> NUL"
  shows "length r < length ps"
proof -
  let ?s = "skip_whitespace ps"
  obtain t q' r' where t: "token_at ?s = (t, q', r')" by (cases "token_at ?s")
  with assms(1) have r: "r = skip_whitespace r'" and tt: "t = tok" by (simp_all add: gettoken_def)
  from t tt assms(2) have d: "deref ?s \<noteq> NUL"
    by (auto simp: token_at_def split: if_splits)
  then have w: "\<not> strchr whitespace (deref ?s)" by (rule deref_skip_whitespace)
  have "length r' < length ?s" using t d w by (rule token_at_consumes)
  with r show ?thesis
    using length_skip_whitespace [of r'] length_skip_whitespace [of ps] by simp
qed

section \<open>The parser\<close>

text \<open>
  Each parsing function returns the command built and the cursor behind it, or the
  message of the \<^verbatim>\<open>panic\<close> that ends the process (\<open>Inl\<close>).
\<close>

function parseredirs :: "cmd \<Rightarrow> string \<Rightarrow> string + cmd \<times> string" where
  "parseredirs cmd ps =
     (case peek ps ''<>'' of
        (b, s) \<Rightarrow>
          if b then
            (case gettoken s of
               (tok, _, s1) \<Rightarrow>
                 (case gettoken s1 of
                    (tok2, q, s2) \<Rightarrow>
                      if tok2 \<noteq> CHR ''a'' then Inl ''missing file for redirection''
                      else if tok = CHR ''<'' then parseredirs (REDIR cmd q {O_RDONLY} 0) s2
                      else if tok = CHR ''>'' then
                        parseredirs (REDIR cmd q {O_WRONLY, O_CREATE, O_TRUNC} 1) s2
                      else if tok = CHR ''+'' then
                        parseredirs (REDIR cmd q {O_WRONLY, O_CREATE} 1) s2
                      else parseredirs cmd s2))
          else Inr (cmd, s))"
  by pat_completeness auto
termination
proof (relation "measure (\<lambda>(cmd, ps). length ps)", goal_cases)
  case 1
  show ?case by simp
next
  case (2 cmd ps x1 s tok x2 y1 s1 tok2 x3 q s2)
  then show ?case
    using gettoken_after_peek [of ps "''<>''" s tok y1 s1] gettoken_length [of s1 tok2 q s2]
    by (cases x2; cases x3) simp
next
  case (3 cmd ps x1 s tok x2 y1 s1 tok2 x3 q s2)
  then show ?case
    using gettoken_after_peek [of ps "''<>''" s tok y1 s1] gettoken_length [of s1 tok2 q s2]
    by (cases x2; cases x3) simp
next
  case (4 cmd ps x1 s tok x2 y1 s1 tok2 x3 q s2)
  then show ?case
    using gettoken_after_peek [of ps "''<>''" s tok y1 s1] gettoken_length [of s1 tok2 q s2]
    by (cases x2; cases x3) simp
next
  case (5 cmd ps x1 s tok x2 y1 s1 tok2 x3 q s2)
  then show ?case
    using gettoken_after_peek [of ps "''<>''" s tok y1 s1] gettoken_length [of s1 tok2 q s2]
    by (cases x2; cases x3) simp
qed

declare parseredirs.simps [simp del]

lemma parseredirs_length: "parseredirs cmd ps = Inr (c, s) \<Longrightarrow> length s \<le> length ps"
proof (induction cmd ps arbitrary: c s rule: parseredirs.induct)
  case (1 cmd ps)
  obtain b s0 where pk: "peek ps ''<>'' = (b, s0)" by (cases "peek ps ''<>''")
  show ?case
  proof (cases b)
    case False
    with "1.prems" pk have "s = s0" by (subst (asm) parseredirs.simps) simp
    with pk show ?thesis by (simp add: peek_length)
  next
    case True
    obtain tok y s1 where g1: "gettoken s0 = (tok, y, s1)" by (cases "gettoken s0")
    obtain tok2 q s2 where g2: "gettoken s1 = (tok2, q, s2)" by (cases "gettoken s1")
    have lt: "length s2 < length ps"
      using gettoken_after_peek [of ps "''<>''" s0 tok y s1] gettoken_length [OF g2] pk True g1
      by simp
    from "1.prems" pk True g1 g2 have a: "tok2 = CHR ''a''"
      by (subst (asm) parseredirs.simps) (auto split: if_splits)
    note ih = "1.IH" [OF pk [symmetric] True g1 [symmetric] refl g2 [symmetric] refl]
    from "1.prems" pk True g1 g2 a have "length s \<le> length s2"
      apply (subst (asm) parseredirs.simps)
      apply (simp split: if_splits)
      using ih by auto
    with lt show ?thesis by simp
  qed
qed

text \<open>
  \<^verbatim>\<open>cmd->argv[argc] = q\<close> in \<^verbatim>\<open>parseexec\<close>: \<^verbatim>\<open>cmd\<close> points to the execcmd that the redirections
  of \<^verbatim>\<open>ret\<close> wrap, and \<^verbatim>\<open>argc\<close> is the number of arguments stored so far.
\<close>

fun store_arg :: "cmd \<Rightarrow> string \<Rightarrow> cmd" where
  "store_arg (EXEC argv b) q = EXEC (argv @ [q]) b"
| "store_arg (REDIR c file omode fd) q = REDIR (store_arg c q) file omode fd"
| "store_arg c q = c"

text \<open>The while loop of \<^verbatim>\<open>parseexec\<close>.\<close>

function parseexec_args :: "nat \<Rightarrow> cmd \<Rightarrow> string \<Rightarrow> string + cmd \<times> string" where
  "parseexec_args argc ret ps =
     (case peek ps ''|)&;'' of
        (b, s) \<Rightarrow>
          if b then Inr (ret, s)
          else
            (case gettoken s of
               (tok, q, s1) \<Rightarrow>
                 if tok = NUL then Inr (ret, s1)
                 else if tok \<noteq> CHR ''a'' then Inl ''syntax''
                 else if argc + 1 \<ge> MAXARGS then Inl ''too many args''
                 else
                   (case parseredirs (store_arg ret q) s1 of
                      Inl e \<Rightarrow> Inl e
                    | Inr (ret1, s2) \<Rightarrow> parseexec_args (argc + 1) ret1 s2)))"
  by pat_completeness auto
termination
proof (relation "measure (\<lambda>(argc, ret, ps). length ps)", goal_cases)
  case 1
  show ?case by simp
next
  case (2 argc ret ps b s tok x2 q s1 x3 ret1 s2)
  then show ?case
    using peek_length [of ps "''|)&;''" b s] gettoken_word_consumes [of s tok q s1]
      parseredirs_length [of "store_arg ret q" s1 ret1 s2]
    by auto
qed

declare parseexec_args.simps [simp del]

text \<open>The while loop of \<^verbatim>\<open>parseline\<close> over the \<^verbatim>\<open>&\<close> that follow a pipeline.\<close>

function parseline_back :: "cmd \<Rightarrow> string \<Rightarrow> cmd \<times> string" where
  "parseline_back cmd ps =
     (case peek ps ''&'' of
        (b, s) \<Rightarrow>
          if b then (case gettoken s of (tok, q, s1) \<Rightarrow> parseline_back (BACK cmd) s1)
          else (cmd, s))"
  by pat_completeness auto
termination
proof (relation "measure (\<lambda>(cmd, ps). length ps)", goal_cases)
  case 1
  show ?case by simp
next
  case (2 cmd ps b s tok x2 q s1)
  then show ?case
    using gettoken_after_peek [of ps "''&''" s tok q s1] by simp
qed

declare parseline_back.simps [simp del]

lemma parseexec_args_length:
  "parseexec_args argc ret ps = Inr (c, s) \<Longrightarrow> length s \<le> length ps"
proof (induction argc ret ps arbitrary: c s rule: parseexec_args.induct)
  case (1 argc ret ps)
  obtain b s0 where pk: "peek ps ''|)&;'' = (b, s0)" by (cases "peek ps ''|)&;''")
  have l0: "length s0 \<le> length ps" using pk by (rule peek_length)
  show ?case
  proof (cases b)
    case True
    with "1.prems" pk have "s = s0" by (subst (asm) parseexec_args.simps) simp
    with l0 show ?thesis by simp
  next
    case False
    obtain tok q s1 where g: "gettoken s0 = (tok, q, s1)" by (cases "gettoken s0")
    have l1: "length s1 \<le> length s0" using g by (rule gettoken_length)
    show ?thesis
    proof (cases "tok = NUL")
      case True
      with "1.prems" pk False g have "s = s1" by (subst (asm) parseexec_args.simps) simp
      with l0 l1 show ?thesis by simp
    next
      case nz: False
      from "1.prems" pk False g nz have a: "tok = CHR ''a''" and m: "\<not> argc + 1 \<ge> MAXARGS"
        by (subst (asm) parseexec_args.simps, simp split: if_splits)+
      from "1.prems" pk False g nz a m obtain ret1 s2 where
        r: "parseredirs (store_arg ret q) s1 = Inr (ret1, s2)"
        and rest: "parseexec_args (argc + 1) ret1 s2 = Inr (c, s)"
        by (subst (asm) parseexec_args.simps) (auto split: sum.splits)
      have l2: "length s2 \<le> length s1" using r by (rule parseredirs_length)
      have "length s \<le> length s2"
        using "1.IH" [OF pk [symmetric] False g [symmetric] refl nz _ m r refl rest] a by simp
      with l0 l1 l2 show ?thesis by simp
    qed
  qed
qed

lemma parseline_back_length:
  "parseline_back cmd ps = (c, s) \<Longrightarrow> length s \<le> length ps"
proof (induction cmd ps arbitrary: c s rule: parseline_back.induct)
  case (1 cmd ps)
  obtain b s0 where pk: "peek ps ''&'' = (b, s0)" by (cases "peek ps ''&''")
  show ?case
  proof (cases b)
    case False
    with "1.prems" pk have "s = s0" by (subst (asm) parseline_back.simps) simp
    with pk show ?thesis by (simp add: peek_length)
  next
    case True
    obtain tok q s1 where g: "gettoken s0 = (tok, q, s1)" by (cases "gettoken s0")
    from "1.prems" pk True g have "parseline_back (BACK cmd) s1 = (c, s)"
      by (subst (asm) parseline_back.simps) simp
    then have "length s \<le> length s1"
      by (rule "1.IH" [OF pk [symmetric] True g [symmetric] refl])
    moreover have "length s1 < length ps"
      using pk True g by (auto intro: gettoken_after_peek)
    ultimately show ?thesis by simp
  qed
qed

function parseline :: "string \<Rightarrow> string + cmd \<times> string"
  and parsepipe :: "string \<Rightarrow> string + cmd \<times> string"
  and parseexec :: "string \<Rightarrow> string + cmd \<times> string"
  and parseblock :: "string \<Rightarrow> string + cmd \<times> string"
where
  "parseline ps =
     (case parsepipe ps of
        Inl e \<Rightarrow> Inl e
      | Inr (cmd, s) \<Rightarrow>
          (case parseline_back cmd s of
             (cmd1, s1) \<Rightarrow>
               (case peek s1 '';'' of
                  (b, s2) \<Rightarrow>
                    if b then
                      (case gettoken s2 of
                         (tok, q, s3) \<Rightarrow>
                           (case parseline s3 of
                              Inl e \<Rightarrow> Inl e
                            | Inr (r, s4) \<Rightarrow> Inr (LIST cmd1 r, s4)))
                    else Inr (cmd1, s2))))"
| "parsepipe ps =
     (case parseexec ps of
        Inl e \<Rightarrow> Inl e
      | Inr (cmd, s) \<Rightarrow>
          (case peek s ''|'' of
             (b, s1) \<Rightarrow>
               if b then
                 (case gettoken s1 of
                    (tok, q, s2) \<Rightarrow>
                      (case parsepipe s2 of
                         Inl e \<Rightarrow> Inl e
                       | Inr (r, s3) \<Rightarrow> Inr (PIPE cmd r, s3)))
               else Inr (cmd, s1)))"
| "parseexec ps =
     (case peek ps ''('' of
        (b, s) \<Rightarrow>
          if b then parseblock s
          else
            (case parseredirs execcmd s of
               Inl e \<Rightarrow> Inl e
             | Inr (ret, s1) \<Rightarrow> parseexec_args 0 ret s1))"
| "parseblock ps =
     (case peek ps ''('' of
        (b, s) \<Rightarrow>
          if \<not> b then Inl ''parseblock''
          else
            (case gettoken s of
               (tok, q, s1) \<Rightarrow>
                 (case parseline s1 of
                    Inl e \<Rightarrow> Inl e
                  | Inr (cmd, s2) \<Rightarrow>
                      (case peek s2 '')'' of
                         (b1, s3) \<Rightarrow>
                           if \<not> b1 then Inl ''syntax - missing )''
                           else (case gettoken s3 of (tok1, q1, s4) \<Rightarrow> parseredirs cmd s4)))))"
  by pat_completeness auto

lemma parse_length_partial:
  "parseline_parsepipe_parseexec_parseblock_dom (Inl (Inl ps)) \<Longrightarrow>
     (\<forall>c s. parseline ps = Inr (c, s) \<longrightarrow> length s \<le> length ps)"
  "parseline_parsepipe_parseexec_parseblock_dom (Inl (Inr ps1)) \<Longrightarrow>
     (\<forall>c s. parsepipe ps1 = Inr (c, s) \<longrightarrow> length s \<le> length ps1)"
  "parseline_parsepipe_parseexec_parseblock_dom (Inr (Inl ps2)) \<Longrightarrow>
     (\<forall>c s. parseexec ps2 = Inr (c, s) \<longrightarrow> length s \<le> length ps2)"
  "parseline_parsepipe_parseexec_parseblock_dom (Inr (Inr ps3)) \<Longrightarrow>
     (\<forall>c s. parseblock ps3 = Inr (c, s) \<longrightarrow> length s \<le> length ps3)"
proof (induct rule: parseline_parsepipe_parseexec_parseblock.pinduct)
  case (1 ps)
  show ?case
  proof (intro allI impI)
    fix c s assume res: "parseline ps = Inr (c, s)"
    note eq = parseline.psimps [OF "1.hyps"(1)]
    from res obtain cmd s0 where pp: "parsepipe ps = Inr (cmd, s0)"
      by (subst (asm) eq) (auto split: sum.splits)
    with "1.hyps"(2) have l0: "length s0 \<le> length ps" by simp
    obtain cmd1 s1 where pb: "parseline_back cmd s0 = (cmd1, s1)"
      by (cases "parseline_back cmd s0")
    then have l1: "length s1 \<le> length s0" by (rule parseline_back_length)
    obtain b s2 where pk: "peek s1 '';'' = (b, s2)" by (cases "peek s1 '';''")
    then have l2: "length s2 \<le> length s1" by (rule peek_length)
    show "length s \<le> length ps"
    proof (cases b)
      case False
      with res pp pb pk have "s = s2" by (subst (asm) eq) simp
      with l0 l1 l2 show ?thesis by simp
    next
      case True
      obtain tok q s3 where g: "gettoken s2 = (tok, q, s3)" by (cases "gettoken s2")
      then have l3: "length s3 \<le> length s2" by (rule gettoken_length)
      from res pp pb pk True g obtain r where pl: "parseline s3 = Inr (r, s)"
        by (subst (asm) eq) (auto split: sum.splits)
      have "\<forall>c s. parseline s3 = Inr (c, s) \<longrightarrow> length s \<le> length s3"
        by (rule "1.hyps"(3) [OF pp refl pb [symmetric] pk [symmetric] True g [symmetric] refl])
      with pl have "length s \<le> length s3" by simp
      with l0 l1 l2 l3 show ?thesis by simp
    qed
  qed
next
  case (2 ps)
  show ?case
  proof (intro allI impI)
    fix c s assume res: "parsepipe ps = Inr (c, s)"
    note eq = parsepipe.psimps [OF "2.hyps"(1)]
    from res obtain cmd s0 where pe: "parseexec ps = Inr (cmd, s0)"
      by (subst (asm) eq) (auto split: sum.splits)
    with "2.hyps"(2) have l0: "length s0 \<le> length ps" by simp
    obtain b s1 where pk: "peek s0 ''|'' = (b, s1)" by (cases "peek s0 ''|''")
    then have l1: "length s1 \<le> length s0" by (rule peek_length)
    show "length s \<le> length ps"
    proof (cases b)
      case False
      with res pe pk have "s = s1" by (subst (asm) eq) simp
      with l0 l1 show ?thesis by simp
    next
      case True
      obtain tok q s2 where g: "gettoken s1 = (tok, q, s2)" by (cases "gettoken s1")
      then have l2: "length s2 \<le> length s1" by (rule gettoken_length)
      from res pe pk True g obtain r where pl: "parsepipe s2 = Inr (r, s)"
        by (subst (asm) eq) (auto split: sum.splits)
      have "\<forall>c s. parsepipe s2 = Inr (c, s) \<longrightarrow> length s \<le> length s2"
        by (rule "2.hyps"(3) [OF pe refl pk [symmetric] True g [symmetric] refl])
      with pl have "length s \<le> length s2" by simp
      with l0 l1 l2 show ?thesis by simp
    qed
  qed
next
  case (3 ps)
  show ?case
  proof (intro allI impI)
    fix c s assume res: "parseexec ps = Inr (c, s)"
    note eq = parseexec.psimps [OF "3.hyps"(1)]
    obtain b s0 where pk: "peek ps ''('' = (b, s0)" by (cases "peek ps ''(''")
    then have l0: "length s0 \<le> length ps" by (rule peek_length)
    show "length s \<le> length ps"
    proof (cases b)
      case True
      with res pk have "parseblock s0 = Inr (c, s)" by (subst (asm) eq) simp
      moreover have "\<forall>c s. parseblock s0 = Inr (c, s) \<longrightarrow> length s \<le> length s0"
        by (rule "3.hyps"(2) [OF pk [symmetric] True])
      ultimately have "length s \<le> length s0" by simp
      with l0 show ?thesis by simp
    next
      case False
      with res pk obtain ret s1 where pr: "parseredirs execcmd s0 = Inr (ret, s1)"
        and pa: "parseexec_args 0 ret s1 = Inr (c, s)"
        by (subst (asm) eq) (auto split: sum.splits)
      from pr have "length s1 \<le> length s0" by (rule parseredirs_length)
      moreover from pa have "length s \<le> length s1" by (rule parseexec_args_length)
      ultimately show ?thesis using l0 by simp
    qed
  qed
next
  case (4 ps)
  show ?case
  proof (intro allI impI)
    fix c s assume res: "parseblock ps = Inr (c, s)"
    note eq = parseblock.psimps [OF "4.hyps"(1)]
    obtain b s0 where pk: "peek ps ''('' = (b, s0)" by (cases "peek ps ''(''")
    then have l0: "length s0 \<le> length ps" by (rule peek_length)
    from res pk have b: b by (subst (asm) eq) (auto split: if_splits)
    obtain tok q s1 where g: "gettoken s0 = (tok, q, s1)" by (cases "gettoken s0")
    then have l1: "length s1 \<le> length s0" by (rule gettoken_length)
    from res pk b g obtain cmd s2 where pl: "parseline s1 = Inr (cmd, s2)"
      by (subst (asm) eq) (auto split: sum.splits)
    have "\<forall>c s. parseline s1 = Inr (c, s) \<longrightarrow> length s \<le> length s1"
      using b by (intro "4.hyps"(2) [OF pk [symmetric] _ g [symmetric] refl]) simp
    with pl have l2: "length s2 \<le> length s1" by simp
    obtain b1 s3 where pk1: "peek s2 '')'' = (b1, s3)" by (cases "peek s2 '')''")
    then have l3: "length s3 \<le> length s2" by (rule peek_length)
    from res pk b g pl pk1 have b1: b1 by (subst (asm) eq) (auto split: if_splits)
    obtain tok1 q1 s4 where g1: "gettoken s3 = (tok1, q1, s4)" by (cases "gettoken s3")
    then have l4: "length s4 \<le> length s3" by (rule gettoken_length)
    from res pk b g pl pk1 b1 g1 have "parseredirs cmd s4 = Inr (c, s)"
      by (subst (asm) eq) simp
    then have "length s \<le> length s4" by (rule parseredirs_length)
    with l0 l1 l2 l3 l4 show "length s \<le> length ps" by simp
  qed
qed

termination parseline
proof (relation "inv_image (less_than <*lex*> less_than)
     (\<lambda>x. case x of
        Inl (Inl ps) \<Rightarrow> (length ps, 3::nat)
      | Inl (Inr ps) \<Rightarrow> (length ps, 2)
      | Inr (Inl ps) \<Rightarrow> (length ps, 1)
      | Inr (Inr ps) \<Rightarrow> (length ps, 0))", goal_cases)
  case 1
  show ?case by (intro wf_inv_image wf_lex_prod wf_less_than)
next
  case (2 ps)
  show ?case by simp
next
  case (3 ps b cmd s cmd1 s1 bb s2 tok x q s3)
  then show ?case
    using parse_length_partial(2) [of ps] parseline_back_length [of cmd s cmd1 s1]
      gettoken_after_peek [of s1 "'';''" s2 tok q s3]
    by auto
next
  case (4 ps)
  show ?case by simp
next
  case (5 ps b cmd s bb s1 tok x q s2)
  then show ?case
    using parse_length_partial(3) [of ps] gettoken_after_peek [of s "''|''" s1 tok q s2]
    by auto
next
  case (6 ps b s)
  then show ?case using peek_length [of ps "''(''" b s] by auto
next
  case (7 ps b s tok x q s1)
  then show ?case using gettoken_after_peek [of ps "''(''" s tok q s1] by auto
qed

declare parseline.simps [simp del] parsepipe.simps [simp del]
  parseexec.simps [simp del] parseblock.simps [simp del]

text \<open>
  \<^verbatim>\<open>parsecmd\<close>: \<^verbatim>\<open>es = s + strlen(s)\<close> ends the string at its first NUL. On failure the result
  lists what is written to descriptor 2 before \<^verbatim>\<open>exit(1)\<close>. The tokens are already lists of
  their own, so \<^verbatim>\<open>nulterminate\<close> has nothing left to do.
\<close>

definition parsecmd :: "string \<Rightarrow> (int \<times> string) list + cmd" where
  "parsecmd buf =
     (case parseline (takeWhile (\<lambda>c. c \<noteq> NUL) buf) of
        Inl e \<Rightarrow> Inl [(2, e @ nl)]
      | Inr (cmd, s) \<Rightarrow>
          (case peek s '''' of
             (b, s1) \<Rightarrow>
               if s1 \<noteq> [] then Inl [(2, ''leftovers: '' @ s1 @ nl), (2, ''syntax'' @ nl)]
               else Inr cmd))"

section \<open>Reading lines and the main loop\<close>

text \<open>
  \<^verbatim>\<open>getcmd\<close> reads bytes one at a time; \<open>inp\<close> lists the bytes the successive
  \<^verbatim>\<open>read(fd, p, 1)\<close> return, and past its end \<^verbatim>\<open>read\<close> returns 0. \<open>getcmd_read\<close> is the while
  loop: it tells whether the loop left through \<^verbatim>\<open>return -1\<close>, the bytes stored in \<^verbatim>\<open>buf\<close>
  (the rest of \<^verbatim>\<open>buf\<close> is zero) and the bytes not read yet.
\<close>

fun getcmd_read :: "int \<Rightarrow> int \<Rightarrow> string \<Rightarrow> string \<Rightarrow> bool \<times> string \<times> string" where
  "getcmd_read i nbuf buf [] = (i < nbuf - 1 \<and> i = 0, buf, [])"
| "getcmd_read i nbuf buf (c # cs) =
     (if i < nbuf - 1 then
        (if c = CHR 0x0A then (False, buf, cs)
         else getcmd_read (i + 1) nbuf (buf @ [c]) cs)
      else (False, buf, c # cs))"

definition getcmd :: "int \<Rightarrow> string \<Rightarrow> int \<times> string \<times> string" where
  "getcmd nbuf inp =
     (case getcmd_read 0 nbuf [] inp of
        (eof, buf, rest) \<Rightarrow>
          if eof then (- 1, buf, rest)
          else if deref buf = NUL then (- 1, buf, rest)
          else (0, buf, rest))"

lemma getcmd_read_length:
  "getcmd_read i nbuf buf inp = (eof, buf1, rest) \<Longrightarrow>
   length rest + length buf1 \<le> length inp + length buf"
  by (induction i nbuf buf inp rule: getcmd_read.induct) (auto split: if_splits)

lemma getcmd_consumes:
  assumes "getcmd nbuf inp = (r, buf, rest)" and "\<not> r < 0"
  shows "length rest < length inp"
proof -
  obtain eof buf1 rest1 where g: "getcmd_read 0 nbuf [] inp = (eof, buf1, rest1)"
    by (cases "getcmd_read 0 nbuf [] inp")
  with assms have "buf1 \<noteq> []" "rest = rest1"
    by (auto simp: getcmd_def deref_def split: if_splits)
  with getcmd_read_length [OF g] show ?thesis by (cases buf1) auto
qed

text \<open>
  The \<^verbatim>\<open>while(1)\<close> loop of \<^verbatim>\<open>main\<close>, with \<^verbatim>\<open>sizeof(buf) = 100\<close>. \<^verbatim>\<open>runcmd\<close> is called in the
  shell's own process, so an \<^verbatim>\<open>exit\<close> or a successful \<^verbatim>\<open>exec\<close> inside it ends the loop.
\<close>

function main_loop :: "int \<Rightarrow> sh \<Rightarrow> string \<Rightarrow> outcome" where
  "main_loop fd st inp =
     (let st1 = (if fd = 0 then fprintf 2 ''$ '' st else st) in
      case getcmd 100 inp of
        (r, buf, rest) \<Rightarrow>
          if r < 0 then Exited 0 st1
          else if deref buf = CHR 0x0A \<or> deref buf = NUL then main_loop fd st1 rest
          else
            (case parsecmd buf of
               Inl msgs \<Rightarrow> Exited 1 (st1\<lparr>out := out st1 @ msgs\<rparr>)
             | Inr cmd \<Rightarrow>
                 (case runcmd cmd st1 of
                    Returned st2 \<Rightarrow>
                      main_loop fd (if fd = 0 then reap_zombies st2 else st2) rest
                  | Exited n st2 \<Rightarrow> Exited n st2
                  | Execd argv st2 \<Rightarrow> Execd argv st2)))"
  by pat_completeness auto
termination
  by (relation "measure (\<lambda>(fd, st, inp). length inp)") (auto dest: getcmd_consumes [OF sym])

declare main_loop.simps [simp del]

text \<open>
  \<^verbatim>\<open>main\<close>: \<open>argv\<close> is the argument vector of the shell itself, and \<open>inp\<close> the bytes that
  reading the script or the standard input will give.
\<close>

definition main :: "string list \<Rightarrow> sh \<Rightarrow> string \<Rightarrow> outcome" where
  "main argv st inp =
     (let st0 = st\<lparr>bg_jobs := map (\<lambda>j. 0) (bg_jobs st)\<rparr> in
      if length argv > 1 then
        (case openf (argv ! 1) {O_RDONLY} st0 of
           (fd, st1) \<Rightarrow>
             if fd < 0 then Exited 1 (fprintf 2 (''sh: cannot open '' @ argv ! 1 @ nl) st1)
             else main_loop fd st1 inp)
      else main_loop 0 st0 inp)"

section \<open>A process to run examples in\<close>

text \<open>
  The shell as init starts it: descriptors 0, 1 and 2 on the console, a job table of
  \<open>nproc\<close> free slots (a C global starts zeroed), nothing written, and no results from the
  host yet.
\<close>

definition start :: "nat \<Rightarrow> sh" where
  "start nproc =
     \<lparr>bg_jobs = replicate nproc 0,
      ofile = (\<lambda>fd. if fd = 0 \<or> fd = 1 \<or> fd = 2 then Some Console else None),
      cwd = ''/'', out = [],
      fork_results = [], wait_results = [], wait_noblock_results = [],
      open_results = [], dup_results = [], pipe_results = [],
      chdir_results = [], exec_results = []\<rparr>"

section \<open>Notions used to state the properties\<close>

text \<open>
  The flag of a command as the PIPE and BACK cases look at it: \<open>exec_marked c\<close> when \<open>c\<close> is
  an EXEC whose \<^verbatim>\<open>back\<close> is set, \<open>top_unmarked c\<close> when \<open>c\<close> is not such an EXEC.
\<close>

definition exec_marked :: "cmd \<Rightarrow> bool" where
  "exec_marked c = (case c of EXEC argv b \<Rightarrow> b | _ \<Rightarrow> False)"

definition top_unmarked :: "cmd \<Rightarrow> bool" where
  "top_unmarked c = (case c of EXEC argv b \<Rightarrow> \<not> b | _ \<Rightarrow> True)"

text \<open>
  A word of a command line: one character or more, none of them whitespace, a symbol or
  NUL. \<open>command_line ws\<close> is the line made of the words \<open>ws\<close>, a space behind each.
\<close>

definition plain_word :: "string \<Rightarrow> bool" where
  "plain_word w \<longleftrightarrow> w \<noteq> [] \<and> (\<forall>c \<in> set w. word_char c)"

definition command_line :: "string list \<Rightarrow> string" where
  "command_line ws = concat (map (\<lambda>w. w @ '' '') ws)"

text \<open>
  What holds of every tree the parser returns (\<open>parsed_ok\<close>): an EXEC has fewer than
  MAXARGS arguments and its \<^verbatim>\<open>back\<close> is 0, and a REDIR has one of the three pairs of mode
  and descriptor that \<^verbatim>\<open>parseredirs\<close> writes. \<open>exec_core\<close> is the argument list of the
  execcmd under the redirections of a simple command; \<open>redirs\<close> and \<open>execs\<close> list the
  redirections and the simple commands of a tree.
\<close>

fun parsed_ok :: "cmd \<Rightarrow> bool" where
  "parsed_ok (EXEC argv b) \<longleftrightarrow> length argv < MAXARGS \<and> \<not> b"
| "parsed_ok (REDIR c file omode fd) \<longleftrightarrow>
     parsed_ok c \<and>
     (omode = {O_RDONLY} \<and> fd = 0 \<or>
      omode = {O_WRONLY, O_CREATE, O_TRUNC} \<and> fd = 1 \<or>
      omode = {O_WRONLY, O_CREATE} \<and> fd = 1)"
| "parsed_ok (PIPE l r) \<longleftrightarrow> parsed_ok l \<and> parsed_ok r"
| "parsed_ok (LIST l r) \<longleftrightarrow> parsed_ok l \<and> parsed_ok r"
| "parsed_ok (BACK c) \<longleftrightarrow> parsed_ok c"

fun exec_core :: "cmd \<Rightarrow> string list option" where
  "exec_core (EXEC argv b) = Some argv"
| "exec_core (REDIR c file omode fd) = exec_core c"
| "exec_core c = None"

fun redirs :: "cmd \<Rightarrow> (string \<times> mode \<times> int) list" where
  "redirs (EXEC argv b) = []"
| "redirs (REDIR c file omode fd) = (file, omode, fd) # redirs c"
| "redirs (PIPE l r) = redirs l @ redirs r"
| "redirs (LIST l r) = redirs l @ redirs r"
| "redirs (BACK c) = redirs c"

fun execs :: "cmd \<Rightarrow> (string list \<times> bool) list" where
  "execs (EXEC argv b) = [(argv, b)]"
| "execs (REDIR c file omode fd) = execs c"
| "execs (PIPE l r) = execs l @ execs r"
| "execs (LIST l r) = execs l @ execs r"
| "execs (BACK c) = execs c"

text \<open>
  The redirection flags in the words of the specification, to compare the flags of the
  code with: \<^verbatim>\<open><\<close> is read-only; \<^verbatim>\<open>>\<close> is write, create-if-absent, truncate; \<^verbatim>\<open>>>\<close> is
  write, create-if-absent, append. \<open>flag_meaning\<close> reads each flag of kernel/fcntl.h that
  the code uses as the specification names it.
\<close>

datatype spec_flag = ReadOnly | WriteOnly | CreateIfAbsent | Truncate | Append

definition spec_open_flags :: "string \<Rightarrow> spec_flag set" where
  "spec_open_flags operator =
     (if operator = ''<'' then {ReadOnly}
      else if operator = ''>'' then {WriteOnly, CreateIfAbsent, Truncate}
      else if operator = ''>>'' then {WriteOnly, CreateIfAbsent, Append}
      else {})"

fun flag_meaning :: "oflag \<Rightarrow> spec_flag" where
  "flag_meaning O_RDONLY = ReadOnly"
| "flag_meaning O_WRONLY = WriteOnly"
| "flag_meaning O_CREATE = CreateIfAbsent"
| "flag_meaning O_TRUNC = Truncate"

text \<open>
  One turn of the \<^verbatim>\<open>while(1)\<close> loop of \<^verbatim>\<open>main\<close> that goes on to the next turn: \<^verbatim>\<open>getcmd\<close>
  gives a line, \<^verbatim>\<open>parsecmd\<close> gives a command and \<^verbatim>\<open>runcmd\<close> returns. \<open>next_line\<close> is the state
  and the input at the start of the next turn, and \<open>after_lines n\<close> is \<open>n\<close> such turns; both
  are \<open>None\<close> when the loop ends before. That they are the turns of \<open>main_loop\<close> is the
  lemma \<open>after_lines_steps\<close>.
\<close>

definition next_line :: "int \<Rightarrow> sh \<Rightarrow> string \<Rightarrow> (sh \<times> string) option" where
  "next_line fd st inp =
     (case getcmd 100 inp of
        (r, buf, rest) \<Rightarrow>
          if r < 0 then None
          else
            (case parsecmd buf of
               Inl msgs \<Rightarrow> None
             | Inr cmd \<Rightarrow>
                 (case runcmd cmd (if fd = 0 then fprintf 2 ''$ '' st else st) of
                    Returned st2 \<Rightarrow> Some (if fd = 0 then reap_zombies st2 else st2, rest)
                  | Exited n st2 \<Rightarrow> None
                  | Execd argv st2 \<Rightarrow> None)))"

fun after_lines :: "nat \<Rightarrow> int \<Rightarrow> sh \<Rightarrow> string \<Rightarrow> (sh \<times> string) option" where
  "after_lines 0 fd st inp = Some (st, inp)"
| "after_lines (Suc n) fd st inp =
     (case next_line fd st inp of
        None \<Rightarrow> None
      | Some (st1, inp1) \<Rightarrow> after_lines n fd st1 inp1)"

section \<open>Properties of the job table and of waiting\<close>

lemma is_bg_job_iff: "is_bg_job pid js \<longleftrightarrow> pid \<in> set js"
  by (induction js) auto

lemma length_add_job [simp]: "length (add_job pid js) = length js"
  by (induction js) auto

lemma length_remove_job [simp]: "length (remove_job pid js) = length js"
  by (induction js) auto

lemma remove_job_absent: "pid \<notin> set js \<Longrightarrow> remove_job pid js = js"
  by (induction js) auto

lemma add_job_full: "0 \<notin> set js \<Longrightarrow> add_job pid js = js"
  by (induction js) auto

lemma add_job_first_free:
  "0 \<in> set js \<Longrightarrow> add_job pid js = js[length (takeWhile (\<lambda>j. j \<noteq> 0) js) := pid]"
  by (induction js) auto

lemma add_job_mem: "0 \<in> set js \<Longrightarrow> pid \<in> set (add_job pid js)"
  by (induction js) auto

lemma add_job_keeps: "q \<in> set js \<Longrightarrow> q \<noteq> 0 \<Longrightarrow> q \<in> set (add_job pid js)"
  by (induction js) auto

lemma count_add_job_zero:
  "pid \<noteq> 0 \<Longrightarrow> count_list (add_job pid js) 0 = count_list js 0 - 1"
  by (induction js) auto

lemma set_remove_job_other:
  "q \<noteq> pid \<Longrightarrow> q \<noteq> 0 \<Longrightarrow> q \<in> set (remove_job pid js) \<longleftrightarrow> q \<in> set js"
  by (induction js) auto

lemma count_remove_job:
  "q \<noteq> 0 \<Longrightarrow> count_list (remove_job pid js) q =
     (if q = pid \<and> pid \<in> set js then count_list js q - 1 else count_list js q)"
  by (induction js) auto

lemma count_fold_remove_job:
  "distinct ps \<Longrightarrow> q \<noteq> 0 \<Longrightarrow> 0 \<notin> set ps \<Longrightarrow>
   count_list (fold remove_job ps js) q =
     (if q \<in> set ps \<and> q \<in> set js then count_list js q - 1 else count_list js q)"
proof (induction ps arbitrary: js)
  case Nil
  then show ?case by simp
next
  case (Cons p ps)
  from Cons.prems have d: "distinct ps" "0 \<notin> set ps" "p \<notin> set ps" "p \<noteq> 0" by auto
  have ih: "count_list (fold remove_job ps (remove_job p js)) q =
     (if q \<in> set ps \<and> q \<in> set (remove_job p js)
      then count_list (remove_job p js) q - 1 else count_list (remove_job p js) q)"
    using d Cons.prems(2) by (intro Cons.IH)
  show ?case
  proof (cases "q = p")
    case True
    with d ih Cons.prems(2) show ?thesis by (simp add: count_remove_job)
  next
    case False
    with Cons.prems(2) have "q \<in> set (remove_job p js) \<longleftrightarrow> q \<in> set js"
      by (simp add: set_remove_job_other)
    with False ih Cons.prems(2) show ?thesis by (simp add: count_remove_job)
  qed
qed

lemma reap_background_job_eq:
  "reap_background_job pid status st =
     st\<lparr>bg_jobs := remove_job pid (bg_jobs st),
        out := out st @ (if pid \<in> set (bg_jobs st) then [(1, bg_notice pid status)] else [])\<rparr>"
  by (simp add: reap_background_job_def printf_def is_bg_job_iff remove_job_absent)

text \<open>
  The loop of \<^verbatim>\<open>wait_for_foreground\<close>, when the host returns the children of \<open>pre\<close> and
  then the awaited one: by induction on \<open>pre\<close>, the state being the one each turn leaves.
\<close>

lemma wait_for_foreground_state:
  "wait_results st = pre @ (F, s) # post \<Longrightarrow> F \<notin> fst ` set pre \<Longrightarrow>
   \<forall>p \<in> fst ` set pre. 0 < p \<Longrightarrow> 0 < F \<Longrightarrow> distinct (map fst pre) \<Longrightarrow>
   wait_for_foreground F st =
     st\<lparr>bg_jobs := fold remove_job (map fst pre) (bg_jobs st),
        out := out st @ map (\<lambda>(p, t). (1, bg_notice p t))
                 (filter (\<lambda>(p, t). p \<in> set (bg_jobs st)) pre),
        wait_results := post\<rparr>"
proof (induction pre arbitrary: st)
  case Nil
  then show ?case
    by (subst wait_for_foreground.simps) (simp add: wait_def)
next
  case (Cons r pre)
  obtain p t where r: "r = (p, t)" by (cases r)
  let ?st1 = "st\<lparr>wait_results := pre @ (F, s) # post\<rparr>"
  let ?st2 = "reap_background_job p t ?st1"
  from Cons.prems r have p: "0 < p" "p \<noteq> F" by auto
  have w: "wait st = ((p, t), ?st1)"
    using Cons.prems(1) r by (simp add: wait_def)
  have step: "wait_for_foreground F st = wait_for_foreground F ?st2"
    using w p by (subst wait_for_foreground.simps) simp
  have ih: "wait_for_foreground F ?st2 =
     ?st2\<lparr>bg_jobs := fold remove_job (map fst pre) (bg_jobs ?st2),
        out := out ?st2 @ map (\<lambda>(p, t). (1, bg_notice p t))
                 (filter (\<lambda>(p, t). p \<in> set (bg_jobs ?st2)) pre),
        wait_results := post\<rparr>"
    using Cons.prems by (intro Cons.IH) auto
  have mem: "filter (\<lambda>(q, u). q \<in> set (remove_job p (bg_jobs st))) pre =
             filter (\<lambda>(q, u). q \<in> set (bg_jobs st)) pre"
  proof (rule filter_cong [OF refl])
    fix x assume x: "x \<in> set pre"
    obtain q u where xq: "x = (q, u)" by (cases x)
    from x xq Cons.prems r have "q \<noteq> p" "q \<noteq> 0" by force+
    then show "(case x of (q, u) \<Rightarrow> q \<in> set (remove_job p (bg_jobs st))) =
               (case x of (q, u) \<Rightarrow> q \<in> set (bg_jobs st))"
      using xq by (simp add: set_remove_job_other)
  qed
  show ?case
    unfolding step ih
    by (simp add: reap_background_job_eq r mem)
qed

lemma is_background_unmarked:
  "top_unmarked l \<Longrightarrow> top_unmarked r \<Longrightarrow> is_background l r = (exec_marked l \<or> exec_marked r)"
  by (cases l; cases r) (simp_all add: is_background_def top_unmarked_def exec_marked_def)

lemma is_background_marked:
  "is_background (set_back l) (set_back r) = (exec_marked (set_back l) \<or> exec_marked (set_back r))"
  by (cases l; cases r) (simp_all add: is_background_def set_back_def exec_marked_def)

lemma two_free_slots:
  assumes "2 \<le> count_list js 0" and "p \<noteq> 0" and "q \<noteq> 0"
  shows "p \<in> set (add_job q (add_job p js)) \<and> q \<in> set (add_job q (add_job p js))"
proof -
  have "count_list js 0 \<noteq> 0" using assms(1) by simp
  then have "0 \<in> set js" by (simp add: count_list_0_iff)
  then have "p \<in> set (add_job p js)" by (rule add_job_mem)
  then have p: "p \<in> set (add_job q (add_job p js))" using assms(2) by (rule add_job_keeps)
  have "count_list (add_job p js) 0 \<noteq> 0"
    using assms(1,2) by (simp add: count_add_job_zero)
  then have "0 \<in> set (add_job p js)" by (simp add: count_list_0_iff)
  then have "q \<in> set (add_job q (add_job p js))" by (rule add_job_mem)
  with p show ?thesis by simp
qed

lemma ofile_reap_background_job [simp]: "ofile (reap_background_job pid status st) = ofile st"
  by (simp add: reap_background_job_def printf_def)

lemma ofile_wait_for_foreground [simp]: "ofile (wait_for_foreground p st) = ofile st"
proof (induction p st rule: wait_for_foreground.induct)
  case (1 p st)
  obtain q t st1 where w: "wait st = ((q, t), st1)" by (cases "wait st") auto
  then have o: "ofile st1 = ofile st" by (auto simp: wait_def split: list.splits)
  show ?case
  proof (cases "0 < q \<and> q \<noteq> p")
    case True
    then show ?thesis
      using "1.IH" [OF w [symmetric] refl] w o
      by (subst wait_for_foreground.simps) simp
  next
    case False
    then show ?thesis using w o by (subst wait_for_foreground.simps) auto
  qed
qed

lemma ofile_reap_zombies [simp]: "ofile (reap_zombies st) = ofile st"
proof (induction st rule: reap_zombies.induct)
  case (1 st)
  obtain q t st1 where w: "wait_noblock st = ((q, t), st1)" by (cases "wait_noblock st") auto
  then have o: "ofile st1 = ofile st" by (auto simp: wait_noblock_def split: list.splits)
  show ?case
  proof (cases "0 < q")
    case True
    then show ?thesis
      using "1.IH" [OF w [symmetric] refl] w o
      by (subst reap_zombies.simps) simp
  next
    case False
    then show ?thesis using w o by (subst reap_zombies.simps) auto
  qed
qed

lemma ofile_print_jobs_slots [simp]: "ofile (print_jobs_slots js st) = ofile st"
  by (induction js st rule: print_jobs_slots.induct) (simp_all add: printf_def)

lemma runcmd_EXEC_ofile:
  "runcmd (EXEC argv b) st = Returned st' \<Longrightarrow> ofile st' = ofile st"
  by (auto simp: runcmd.simps print_jobs_def fprintf_def printf_def chdir_def fork1_def fork_def
      exec_def panic_def split: list.splits if_splits sum.splits prod.splits)

text \<open>
  The decimal text of a pid determines the pid, so the line \<^verbatim>\<open>[<pid>]\<close> tells which pid
  was printed.
\<close>

lemma digit_inj: "a < 10 \<Longrightarrow> b < 10 \<Longrightarrow> digit a = digit b \<Longrightarrow> a = b"
  by (simp add: digit_def char_of_eq_iff take_bit_eq_mod)

lemma digit_not_minus: "a < 10 \<Longrightarrow> digit a \<noteq> CHR ''-''"
proof
  assume a: "a < 10" and "digit a = CHR ''-''"
  then have "of_char (digit a) = (of_char (CHR ''-'') :: nat)" by simp
  with a show False by (simp add: digit_def take_bit_eq_mod)
qed

lemma dec_not_Nil: "dec n \<noteq> []"
  by (subst dec.simps) simp

lemma minus_notin_dec: "CHR ''-'' \<notin> set (dec n)"
proof (induction n rule: dec.induct)
  case (1 n)
  show ?case
  proof (cases "n < 10")
    case True
    then show ?thesis using digit_not_minus [of n] by (subst dec.simps) auto
  next
    case False
    then show ?thesis
      using "1.IH" digit_not_minus [of "n mod 10"] by (subst dec.simps) auto
  qed
qed

lemma dec_inj: "dec a = dec b \<Longrightarrow> a = b"
proof (induction a arbitrary: b rule: dec.induct)
  case (1 a)
  show ?case
  proof (cases "a < 10")
    case a: True
    show ?thesis
    proof (cases "b < 10")
      case True
      with a "1.prems" show ?thesis
        by (subst (asm) dec.simps, subst (asm) (2) dec.simps) (simp add: digit_inj)
    next
      case False
      with a "1.prems" show ?thesis
        using dec_not_Nil [of "b div 10"]
        by (subst (asm) dec.simps, subst (asm) (2) dec.simps) simp
    qed
  next
    case a: False
    show ?thesis
    proof (cases "b < 10")
      case True
      with a "1.prems" show ?thesis
        using dec_not_Nil [of "a div 10"]
        by (subst (asm) dec.simps, subst (asm) (2) dec.simps) simp
    next
      case False
      with a "1.prems" have e: "dec (a div 10) = dec (b div 10)"
        and d: "digit (a mod 10) = digit (b mod 10)"
        by (subst (asm) dec.simps, subst (asm) (2) dec.simps, simp)+
      from "1.IH" [OF a e] have "a div 10 = b div 10" .
      moreover from d have "a mod 10 = b mod 10" by (intro digit_inj) simp_all
      ultimately show ?thesis by (metis div_mult_mod_eq)
    qed
  qed
qed

lemma show_int_inj: "show_int p = show_int q \<Longrightarrow> p = q"
proof -
  assume e: "show_int p = show_int q"
  have h: "hd (dec n) \<noteq> CHR ''-''" for n
    using minus_notin_dec [of n] dec_not_Nil [of n] by (cases "dec n") auto
  show ?thesis
  proof (cases "p < 0"; cases "q < 0")
    assume "p < 0" "q < 0"
    with e have "dec (nat (- p)) = dec (nat (- q))" by (simp add: show_int_def)
    then have "nat (- p) = nat (- q)" by (rule dec_inj)
    with \<open>p < 0\<close> \<open>q < 0\<close> show ?thesis by simp
  next
    assume "p < 0" "\<not> q < 0"
    with e h [of "nat q"] show ?thesis
      by (auto simp: show_int_def dest: arg_cong [where f = hd])
  next
    assume "\<not> p < 0" "q < 0"
    with e h [of "nat p"] show ?thesis
      by (auto simp: show_int_def dest: arg_cong [where f = hd])
  next
    assume "\<not> p < 0" "\<not> q < 0"
    with e have "dec (nat p) = dec (nat q)" by (simp add: show_int_def)
    then have "nat p = nat q" by (rule dec_inj)
    with \<open>\<not> p < 0\<close> \<open>\<not> q < 0\<close> show ?thesis by simp
  qed
qed

lemma job_text_inj: "''['' @ show_int p @ '']'' @ nl = ''['' @ show_int q @ '']'' @ nl \<Longrightarrow> p = q"
  by (simp add: show_int_inj)

lemma one_free_slot:
  assumes "count_list js 0 = 1" and "p \<noteq> 0"
  shows "add_job q (add_job p js) = add_job p js \<and> p \<in> set (add_job p js)"
proof -
  have "count_list js 0 \<noteq> 0" using assms(1) by simp
  then have z: "0 \<in> set js" by (simp add: count_list_0_iff)
  have "count_list (add_job p js) 0 = 0" using assms by (simp add: count_add_job_zero)
  then have "0 \<notin> set (add_job p js)" by (simp add: count_list_0_iff)
  then have "add_job q (add_job p js) = add_job p js" by (rule add_job_full)
  with add_job_mem [OF z, of p] show ?thesis by simp
qed

lemma show_int_5: "show_int 5 = ''5''"
  by code_simp

lemma show_int_7: "show_int 7 = ''7''"
  by code_simp

text \<open>
  The children of a PIPE run \<^verbatim>\<open>runcmd\<close> on their side. When that side is an EXEC marked
  background, the child forks again and, as the parent of that fork, stores the new pid
  in its own copy of the job table and prints a job line of its own before it exits
  (the EXEC case, lines 185-188 of \<^verbatim>\<open>sh.c\<close>). Here for the right child of \<^verbatim>\<open>ls | wc &\<close>: the
  shell has pid 5 for the left child, and the right child prints \<^verbatim>\<open>[7]\<close>. The comment in
  the PIPE case says \<^verbatim>\<open>but we only print the first one\<close>.
\<close>

lemma pipe_right_child_job_line:
  "runcmd (PIPE (EXEC [''ls''] True) (EXEC [''wc''] True))
      ((start 2)\<lparr>pipe_results := [Some (3, 4)], fork_results := [5, 0, 7],
          dup_results := [0]\<rparr>) =
     Exited 0 ((start 2)\<lparr>bg_jobs := [7, 0], ofile := (ofile (start 2))(0 \<mapsto> PipeRead),
                 out := [(1, ''[7]'' @ nl)]\<rparr>)"
  by (simp add: runcmd.simps pipe_def fork1_def fork_def close_def dup_def printf_def
      job_line_def start_def numeral_2_eq_2 fun_eq_iff show_int_7)

section \<open>Properties of the tokenizer and the parser\<close>

lemma word_char_simps [simp]:
  "\<not> word_char NUL" "\<not> word_char (CHR '' '')" "\<not> word_char (CHR ''<'')"
  "\<not> word_char (CHR ''>'')" "\<not> word_char (CHR ''|'')" "\<not> word_char (CHR ''&'')"
  "\<not> word_char (CHR '';'')" "\<not> word_char (CHR ''('')" "\<not> word_char (CHR '')'')"
  by (simp_all add: word_char_def strchr_def whitespace_def symbols_def)

lemma word_char_not_whitespace: "word_char c \<Longrightarrow> \<not> strchr whitespace c"
  by (simp add: word_char_def)

lemma word_char_not_symbol: "word_char c \<Longrightarrow> c \<notin> set symbols"
  by (simp add: word_char_def strchr_def)

lemma plain_word_Cons: "plain_word w \<Longrightarrow> \<exists>c cs. w = c # cs \<and> word_char c"
  by (cases w) (auto simp: plain_word_def)

lemma skip_whitespace_word [simp]: "plain_word w \<Longrightarrow> skip_whitespace (w @ r) = w @ r"
  by (auto dest!: plain_word_Cons simp: skip_whitespace_def word_char_not_whitespace)

lemma skip_whitespace_space [simp]: "skip_whitespace (CHR '' '' # r) = skip_whitespace r"
  by (simp add: skip_whitespace_def strchr_def whitespace_def)

lemma skip_whitespace_Nil [simp]: "skip_whitespace [] = []"
  by (simp add: skip_whitespace_def)

lemma deref_word: "plain_word w \<Longrightarrow> word_char (deref (w @ r))"
  by (auto dest!: plain_word_Cons simp: deref_def)

lemma token_at_word:
  assumes "plain_word w" and "r = [] \<or> \<not> word_char (hd r)"
  shows "token_at (w @ r) = (CHR ''a'', w, r)"
proof -
  have d: "word_char (deref (w @ r))" using assms(1) by (rule deref_word)
  then have n: "deref (w @ r) \<noteq> NUL" "deref (w @ r) \<noteq> CHR ''>''"
    "deref (w @ r) \<notin> set ''|();&<''"
    by (auto simp: word_char_def strchr_def symbols_def)
  from assms have "takeWhile word_char (w @ r) = w"
    by (cases r) (auto simp: plain_word_def takeWhile_append2)
  moreover from assms have "dropWhile word_char (w @ r) = r"
    by (cases r) (auto simp: plain_word_def dropWhile_append2)
  ultimately show ?thesis using n by (simp add: token_at_def)
qed

lemma gettoken_word:
  "plain_word w \<Longrightarrow> r = [] \<or> \<not> word_char (hd r) \<Longrightarrow>
   gettoken (w @ r) = (CHR ''a'', w, skip_whitespace r)"
  by (simp add: gettoken_def token_at_word)

lemma peek_word:
  "plain_word w \<Longrightarrow> set toks \<subseteq> set symbols \<Longrightarrow> peek (w @ r) toks = (False, w @ r)"
  using deref_word [of w r]
  by (auto simp: peek_def word_char_def strchr_def Let_def)

lemma peek_Nil [simp]: "peek [] toks = (False, [])"
  by (simp add: peek_def deref_def)

lemma gettoken_Nil [simp]: "gettoken [] = (NUL, [], [])"
  by (simp add: gettoken_def token_at_def deref_def)

lemma parseredirs_word [simp]: "plain_word w \<Longrightarrow> parseredirs c (w @ r) = Inr (c, w @ r)"
  by (subst parseredirs.simps) (simp add: peek_word symbols_def)

lemma parseredirs_Nil [simp]: "parseredirs c [] = Inr (c, [])"
  by (subst parseredirs.simps) simp

lemma parseline_back_Nil [simp]: "parseline_back c [] = (c, [])"
  by (subst parseline_back.simps) simp

lemma command_line_Cons: "command_line (w # ws) = w @ CHR '' '' # command_line ws"
  by (simp add: command_line_def)

lemma command_line_Nil [simp]: "command_line [] = []"
  by (simp add: command_line_def)

lemma skip_whitespace_command_line:
  "\<forall>w \<in> set ws. plain_word w \<Longrightarrow> ws \<noteq> [] \<Longrightarrow>
   skip_whitespace (command_line ws @ r) = command_line ws @ r"
  by (cases ws) (simp_all add: command_line_Cons)

lemma parseexec_args_too_many:
  "\<forall>w \<in> set ws. plain_word w \<Longrightarrow> MAXARGS \<le> argc + length ws \<Longrightarrow> argc < MAXARGS \<Longrightarrow>
   parseexec_args argc (EXEC argv b) (command_line ws @ r) = Inl ''too many args''"
proof (induction ws arbitrary: argc argv)
  case Nil
  then show ?case by simp
next
  case (Cons w ws)
  then have w: "plain_word w" by simp
  have g: "gettoken (w @ CHR '' '' # command_line ws @ r) =
      (CHR ''a'', w, skip_whitespace (command_line ws @ r))"
    using gettoken_word [OF w, of "CHR '' '' # command_line ws @ r"] by simp
  show ?case
  proof (cases "MAXARGS \<le> argc + 1")
    case True
    then show ?thesis
      using w g
      by (subst parseexec_args.simps) (simp add: command_line_Cons peek_word symbols_def NUL_def)
  next
    case False
    with Cons.prems have ne: "ws \<noteq> []" by auto
    with Cons.prems have sk: "skip_whitespace (command_line ws @ r) = command_line ws @ r"
      by (simp add: skip_whitespace_command_line)
    from ne Cons.prems obtain w' ws' where ws: "ws = w' # ws'" and w': "plain_word w'"
      by (cases ws) auto
    have pr: "parseredirs (EXEC (argv @ [w]) b) (command_line ws @ r) =
        Inr (EXEC (argv @ [w]) b, command_line ws @ r)"
      using w' by (simp add: ws command_line_Cons)
    have ih: "parseexec_args (argc + 1) (EXEC (argv @ [w]) b) (command_line ws @ r) =
        Inl ''too many args''"
      using Cons.prems False by (intro Cons.IH) auto
    show ?thesis
      using w g False sk pr ih
      by (subst parseexec_args.simps) (simp add: command_line_Cons peek_word symbols_def NUL_def)
  qed
qed

lemma parseexec_args_words:
  "\<forall>w \<in> set ws. plain_word w \<Longrightarrow> argc + length ws < MAXARGS \<Longrightarrow>
   parseexec_args argc (EXEC argv b) (command_line ws) = Inr (EXEC (argv @ ws) b, [])"
proof (induction ws arbitrary: argc argv)
  case Nil
  show ?case by (subst parseexec_args.simps) simp
next
  case (Cons w ws)
  then have w: "plain_word w" by simp
  have g: "gettoken (w @ CHR '' '' # command_line ws) =
      (CHR ''a'', w, skip_whitespace (command_line ws))"
    using gettoken_word [OF w, of "CHR '' '' # command_line ws"] by simp
  have sk: "skip_whitespace (command_line ws) = command_line ws"
    using Cons.prems skip_whitespace_command_line [of ws "[]"] by (cases "ws = []") auto
  have pr: "parseredirs (EXEC (argv @ [w]) b) (command_line ws) =
      Inr (EXEC (argv @ [w]) b, command_line ws)"
  proof (cases ws)
    case Nil
    then show ?thesis by simp
  next
    case (Cons w' ws')
    with Cons.prems show ?thesis using parseredirs_word [of w'] by (simp add: command_line_Cons)
  qed
  have ih: "parseexec_args (argc + 1) (EXEC (argv @ [w]) b) (command_line ws) =
      Inr (EXEC ((argv @ [w]) @ ws) b, [])"
    using Cons.prems by (intro Cons.IH) auto
  from Cons.prems have m: "\<not> MAXARGS \<le> argc + 1" by simp
  show ?case
    using w g m sk pr ih
    by (subst parseexec_args.simps) (simp add: command_line_Cons peek_word symbols_def NUL_def)
qed

lemma parseexec_command_line_too_many:
  assumes "\<forall>w \<in> set ws. plain_word w" and "MAXARGS \<le> length ws"
  shows "parseexec (command_line ws @ r) = Inl ''too many args''"
proof -
  from assms obtain w ws' where ws: "ws = w # ws'" and w: "plain_word w"
    by (cases ws) (auto simp: MAXARGS_def)
  have "parseexec_args 0 (EXEC [] False) (command_line ws @ r) = Inl ''too many args''"
    using assms by (intro parseexec_args_too_many) (simp_all add: MAXARGS_def)
  then show ?thesis
    using w
    by (subst parseexec.simps)
       (simp add: ws command_line_Cons peek_word symbols_def execcmd_def)
qed

lemma parseexec_command_line:
  assumes "\<forall>w \<in> set ws. plain_word w" and "length ws < MAXARGS"
  shows "parseexec (command_line ws) = Inr (EXEC ws False, [])"
proof -
  have a: "parseexec_args 0 (EXEC [] False) (command_line ws) = Inr (EXEC ([] @ ws) False, [])"
    using assms by (intro parseexec_args_words) simp_all
  show ?thesis
  proof (cases ws)
    case Nil
    with a show ?thesis by (subst parseexec.simps) (simp add: execcmd_def)
  next
    case (Cons w ws')
    with assms have "plain_word w" by simp
    with a Cons show ?thesis
      by (subst parseexec.simps)
         (simp add: command_line_Cons peek_word symbols_def execcmd_def)
  qed
qed

lemma NUL_command_line: "\<forall>w \<in> set ws. plain_word w \<Longrightarrow> x \<in> set (command_line ws) \<Longrightarrow> x \<noteq> NUL"
proof (induction ws)
  case Nil
  then show ?case by simp
next
  case (Cons w ws)
  have "x \<in> set w \<Longrightarrow> x \<noteq> NUL"
    using Cons.prems(1) word_char_simps(1) by (auto simp: plain_word_def)
  moreover have "CHR '' '' \<noteq> NUL" by (simp add: NUL_def)
  ultimately show ?case using Cons by (auto simp: command_line_Cons)
qed

lemma takeWhile_command_line:
  "\<forall>w \<in> set ws. plain_word w \<Longrightarrow>
   takeWhile (\<lambda>c. c \<noteq> NUL) (command_line ws @ r) = command_line ws @ takeWhile (\<lambda>c. c \<noteq> NUL) r"
  by (rule takeWhile_append2) (rule NUL_command_line)

lemma takeWhile_command_line_all:
  "\<forall>w \<in> set ws. plain_word w \<Longrightarrow>
   takeWhile (\<lambda>c. c \<noteq> NUL) (command_line ws) = command_line ws"
  using takeWhile_command_line [of ws "[]"] by simp

lemma parsecmd_too_many:
  assumes "\<forall>w \<in> set ws. plain_word w" and "MAXARGS \<le> length ws"
  shows "parsecmd (command_line ws @ r) = Inl [(2, ''too many args'' @ nl)]"
  using assms
  by (simp add: parsecmd_def takeWhile_command_line parseline.simps parsepipe.simps
      parseexec_command_line_too_many)

lemma parsecmd_command_line:
  assumes "\<forall>w \<in> set ws. plain_word w" and "length ws < MAXARGS"
  shows "parsecmd (command_line ws) = Inr (EXEC ws False)"
  using assms
  by (simp add: parsecmd_def takeWhile_command_line_all parseline.simps parsepipe.simps
      parseexec_command_line)

lemma parseredirs_ok:
  "parseredirs cmd ps = Inr (c, s) \<Longrightarrow> parsed_ok cmd \<Longrightarrow>
   parsed_ok c \<and> exec_core c = exec_core cmd"
proof (induction cmd ps arbitrary: c s rule: parseredirs.induct)
  case (1 cmd ps)
  obtain b s0 where pk: "peek ps ''<>'' = (b, s0)" by (cases "peek ps ''<>''")
  show ?case
  proof (cases b)
    case False
    with "1.prems" pk show ?thesis by (subst (asm) parseredirs.simps) simp
  next
    case True
    obtain tok y s1 where g1: "gettoken s0 = (tok, y, s1)" by (cases "gettoken s0")
    obtain tok2 q s2 where g2: "gettoken s1 = (tok2, q, s2)" by (cases "gettoken s1")
    from "1.prems"(1) pk True g1 g2 have a: "tok2 = CHR ''a''"
      by (subst (asm) parseredirs.simps) (auto split: if_splits)
    note ih = "1.IH" [OF pk [symmetric] True g1 [symmetric] refl g2 [symmetric] refl]
    from "1.prems"(1) pk True g1 g2 a have unf:
      "(if tok = CHR ''<'' then parseredirs (REDIR cmd q {O_RDONLY} 0) s2
        else if tok = CHR ''>'' then parseredirs (REDIR cmd q {O_WRONLY, O_CREATE, O_TRUNC} 1) s2
        else if tok = CHR ''+'' then parseredirs (REDIR cmd q {O_WRONLY, O_CREATE} 1) s2
        else parseredirs cmd s2) = Inr (c, s)"
      by (subst (asm) parseredirs.simps) simp
    have na: "\<not> tok2 \<noteq> CHR ''a''" using a by simp
    consider (lt) "tok = CHR ''<''" | (gt) "tok = CHR ''>''" | (plus) "tok = CHR ''+''"
      | (other) "tok \<noteq> CHR ''<''" "tok \<noteq> CHR ''>''" "tok \<noteq> CHR ''+''"
      by blast
    then show ?thesis
    proof cases
      case lt
      with unf have r: "parseredirs (REDIR cmd q {O_RDONLY} 0) s2 = Inr (c, s)" by simp
      have "parsed_ok (REDIR cmd q {O_RDONLY} 0)" using "1.prems"(2) by simp
      with ih(1) [OF na lt r] show ?thesis by simp
    next
      case gt
      with unf have r: "parseredirs (REDIR cmd q {O_WRONLY, O_CREATE, O_TRUNC} 1) s2 = Inr (c, s)"
        by simp
      have "parsed_ok (REDIR cmd q {O_WRONLY, O_CREATE, O_TRUNC} 1)" using "1.prems"(2) by simp
      moreover from gt have "tok \<noteq> CHR ''<''" by simp
      ultimately show ?thesis
        using ih(2) [OF na _ gt r] by simp
    next
      case plus
      with unf have r: "parseredirs (REDIR cmd q {O_WRONLY, O_CREATE} 1) s2 = Inr (c, s)"
        by simp
      have "parsed_ok (REDIR cmd q {O_WRONLY, O_CREATE} 1)" using "1.prems"(2) by simp
      moreover from plus have "tok \<noteq> CHR ''<''" "tok \<noteq> CHR ''>''" by simp_all
      ultimately show ?thesis
        using ih(3) [OF na _ _ plus r] by simp
    next
      case other
      with unf have r: "parseredirs cmd s2 = Inr (c, s)" by simp
      with other show ?thesis
        using ih(4) [OF na _ _ _ r] "1.prems"(2) by simp
    qed
  qed
qed

lemma store_arg_ok:
  "parsed_ok ret \<Longrightarrow> exec_core ret = Some argv \<Longrightarrow> length argv + 1 < MAXARGS \<Longrightarrow>
   parsed_ok (store_arg ret q) \<and> exec_core (store_arg ret q) = Some (argv @ [q])"
  by (induction ret q rule: store_arg.induct) auto

lemma parseexec_args_ok:
  "parseexec_args argc ret ps = Inr (c, s) \<Longrightarrow> parsed_ok ret \<Longrightarrow>
   exec_core ret = Some argv \<Longrightarrow> length argv = argc \<Longrightarrow> parsed_ok c"
proof (induction argc ret ps arbitrary: c s argv rule: parseexec_args.induct)
  case (1 argc ret ps)
  obtain b s0 where pk: "peek ps ''|)&;'' = (b, s0)" by (cases "peek ps ''|)&;''")
  show ?case
  proof (cases b)
    case True
    with "1.prems" pk show ?thesis by (subst (asm) parseexec_args.simps) simp
  next
    case False
    obtain tok q s1 where g: "gettoken s0 = (tok, q, s1)" by (cases "gettoken s0")
    show ?thesis
    proof (cases "tok = NUL")
      case True
      with "1.prems" pk False g show ?thesis by (subst (asm) parseexec_args.simps) simp
    next
      case nz: False
      from "1.prems"(1) pk False g nz have a: "tok = CHR ''a''" and m: "\<not> argc + 1 \<ge> MAXARGS"
        by (subst (asm) parseexec_args.simps, simp split: if_splits)+
      from "1.prems"(1) pk False g nz a m obtain ret1 s2 where
        r: "parseredirs (store_arg ret q) s1 = Inr (ret1, s2)"
        and rest: "parseexec_args (argc + 1) ret1 s2 = Inr (c, s)"
        by (subst (asm) parseexec_args.simps) (auto split: sum.splits)
      have st: "parsed_ok (store_arg ret q) \<and> exec_core (store_arg ret q) = Some (argv @ [q])"
        using "1.prems"(2-4) m by (intro store_arg_ok) auto
      with parseredirs_ok [OF r] have ok1: "parsed_ok ret1" "exec_core ret1 = Some (argv @ [q])"
        by auto
      show ?thesis
        using "1.IH" [OF pk [symmetric] False g [symmetric] refl nz _ m r refl rest ok1] a
          "1.prems"(4) by simp
    qed
  qed
qed

lemma parseline_back_ok:
  "parseline_back cmd ps = (c, s) \<Longrightarrow> parsed_ok cmd \<Longrightarrow> parsed_ok c"
proof (induction cmd ps arbitrary: c s rule: parseline_back.induct)
  case (1 cmd ps)
  obtain b s0 where pk: "peek ps ''&'' = (b, s0)" by (cases "peek ps ''&''")
  show ?case
  proof (cases b)
    case False
    with "1.prems" pk show ?thesis by (subst (asm) parseline_back.simps) simp
  next
    case True
    obtain tok q s1 where g: "gettoken s0 = (tok, q, s1)" by (cases "gettoken s0")
    from "1.prems" pk True g have "parseline_back (BACK cmd) s1 = (c, s)"
      by (subst (asm) parseline_back.simps) simp
    moreover have "parsed_ok (BACK cmd)" using "1.prems"(2) by simp
    ultimately show ?thesis
      by (rule "1.IH" [OF pk [symmetric] True g [symmetric] refl])
  qed
qed

lemma parse_ok:
  "\<forall>c s. parseline ps = Inr (c, s) \<longrightarrow> parsed_ok c"
  "\<forall>c s. parsepipe ps1 = Inr (c, s) \<longrightarrow> parsed_ok c"
  "\<forall>c s. parseexec ps2 = Inr (c, s) \<longrightarrow> parsed_ok c"
  "\<forall>c s. parseblock ps3 = Inr (c, s) \<longrightarrow> parsed_ok c"
proof (induct ps and ps1 and ps2 and ps3 rule: parseline_parsepipe_parseexec_parseblock.induct)
  case (1 ps)
  show ?case
  proof (intro allI impI)
    fix c s assume res: "parseline ps = Inr (c, s)"
    note eq = parseline.simps [of ps]
    from res obtain cmd s0 where pp: "parsepipe ps = Inr (cmd, s0)"
      by (subst (asm) eq) (auto split: sum.splits)
    with "1.hyps"(1) have ok0: "parsed_ok cmd" by simp
    obtain cmd1 s1 where pb: "parseline_back cmd s0 = (cmd1, s1)"
      by (cases "parseline_back cmd s0")
    then have ok1: "parsed_ok cmd1" using ok0 by (rule parseline_back_ok)
    obtain b s2 where pk: "peek s1 '';'' = (b, s2)" by (cases "peek s1 '';''")
    show "parsed_ok c"
    proof (cases b)
      case False
      with res pp pb pk have "c = cmd1" by (subst (asm) eq) simp
      with ok1 show ?thesis by simp
    next
      case True
      obtain tok q s3 where g: "gettoken s2 = (tok, q, s3)" by (cases "gettoken s2")
      from res pp pb pk True g obtain r where pl: "parseline s3 = Inr (r, s)"
        and c: "c = LIST cmd1 r"
        by (subst (asm) eq) (auto split: sum.splits)
      have "\<forall>c s. parseline s3 = Inr (c, s) \<longrightarrow> parsed_ok c"
        by (rule "1.hyps"(2) [OF pp refl pb [symmetric] pk [symmetric] True g [symmetric] refl])
      with pl have "parsed_ok r" by simp
      with ok1 c show ?thesis by simp
    qed
  qed
next
  case (2 ps)
  show ?case
  proof (intro allI impI)
    fix c s assume res: "parsepipe ps = Inr (c, s)"
    note eq = parsepipe.simps [of ps]
    from res obtain cmd s0 where pe: "parseexec ps = Inr (cmd, s0)"
      by (subst (asm) eq) (auto split: sum.splits)
    with "2.hyps"(1) have ok0: "parsed_ok cmd" by simp
    obtain b s1 where pk: "peek s0 ''|'' = (b, s1)" by (cases "peek s0 ''|''")
    show "parsed_ok c"
    proof (cases b)
      case False
      with res pe pk have "c = cmd" by (subst (asm) eq) simp
      with ok0 show ?thesis by simp
    next
      case True
      obtain tok q s2 where g: "gettoken s1 = (tok, q, s2)" by (cases "gettoken s1")
      from res pe pk True g obtain r where pl: "parsepipe s2 = Inr (r, s)"
        and c: "c = PIPE cmd r"
        by (subst (asm) eq) (auto split: sum.splits)
      have "\<forall>c s. parsepipe s2 = Inr (c, s) \<longrightarrow> parsed_ok c"
        by (rule "2.hyps"(2) [OF pe refl pk [symmetric] True g [symmetric] refl])
      with pl have "parsed_ok r" by simp
      with ok0 c show ?thesis by simp
    qed
  qed
next
  case (3 ps)
  show ?case
  proof (intro allI impI)
    fix c s assume res: "parseexec ps = Inr (c, s)"
    note eq = parseexec.simps [of ps]
    obtain b s0 where pk: "peek ps ''('' = (b, s0)" by (cases "peek ps ''(''")
    show "parsed_ok c"
    proof (cases b)
      case True
      with res pk have "parseblock s0 = Inr (c, s)" by (subst (asm) eq) simp
      moreover have "\<forall>c s. parseblock s0 = Inr (c, s) \<longrightarrow> parsed_ok c"
        by (rule "3.hyps" [OF pk [symmetric] True])
      ultimately show ?thesis by simp
    next
      case False
      with res pk obtain ret s1 where pr: "parseredirs execcmd s0 = Inr (ret, s1)"
        and pa: "parseexec_args 0 ret s1 = Inr (c, s)"
        by (subst (asm) eq) (auto split: sum.splits)
      have "parsed_ok execcmd" by (simp add: execcmd_def MAXARGS_def)
      with parseredirs_ok [OF pr] have "parsed_ok ret" "exec_core ret = Some []"
        by (simp_all add: execcmd_def)
      with pa show ?thesis by (rule parseexec_args_ok [of 0 ret s1 c s "[]"]) simp_all
    qed
  qed
next
  case (4 ps)
  show ?case
  proof (intro allI impI)
    fix c s assume res: "parseblock ps = Inr (c, s)"
    note eq = parseblock.simps [of ps]
    obtain b s0 where pk: "peek ps ''('' = (b, s0)" by (cases "peek ps ''(''")
    from res pk have b: b by (subst (asm) eq) (auto split: if_splits)
    obtain tok q s1 where g: "gettoken s0 = (tok, q, s1)" by (cases "gettoken s0")
    from res pk b g obtain cmd s2 where pl: "parseline s1 = Inr (cmd, s2)"
      by (subst (asm) eq) (auto split: sum.splits)
    have "\<forall>c s. parseline s1 = Inr (c, s) \<longrightarrow> parsed_ok c"
      using b by (intro "4.hyps" [OF pk [symmetric] _ g [symmetric] refl]) simp
    with pl have ok: "parsed_ok cmd" by simp
    obtain b1 s3 where pk1: "peek s2 '')'' = (b1, s3)" by (cases "peek s2 '')''")
    from res pk b g pl pk1 have b1: b1 by (subst (asm) eq) (auto split: if_splits)
    obtain tok1 q1 s4 where g1: "gettoken s3 = (tok1, q1, s4)" by (cases "gettoken s3")
    from res pk b g pl pk1 b1 g1 have "parseredirs cmd s4 = Inr (c, s)"
      by (subst (asm) eq) simp
    from parseredirs_ok [OF this ok] show "parsed_ok c" by simp
  qed
qed

lemma parsecmd_ok: "parsecmd buf = Inr c \<Longrightarrow> parsed_ok c"
  using parse_ok(1) [of "takeWhile (\<lambda>c. c \<noteq> NUL) buf"]
  by (auto simp: parsecmd_def split: sum.splits prod.splits if_splits)

lemma parsed_ok_redirs:
  "parsed_ok c \<Longrightarrow> (file, omode, fd) \<in> set (redirs c) \<Longrightarrow>
   omode = {O_RDONLY} \<and> fd = 0 \<or> omode = {O_WRONLY, O_CREATE, O_TRUNC} \<and> fd = 1 \<or>
   omode = {O_WRONLY, O_CREATE} \<and> fd = 1"
  by (induction c) auto

lemma parsed_ok_top_unmarked: "parsed_ok c \<Longrightarrow> top_unmarked c"
  by (cases c) (simp_all add: top_unmarked_def)

lemma parsed_ok_execs:
  "parsed_ok c \<Longrightarrow> (argv, b) \<in> set (execs c) \<Longrightarrow> length argv < MAXARGS \<and> \<not> b"
  by (induction c) auto

lemma peek_symbol:
  "c \<noteq> NUL \<Longrightarrow> \<not> strchr whitespace c \<Longrightarrow> peek (c # r) toks = (c \<in> set toks, c # r)"
  by (simp add: peek_def skip_whitespace_def deref_def strchr_def)

lemma not_whitespace [simp]:
  "\<not> strchr whitespace (CHR ''<'')" "\<not> strchr whitespace (CHR ''>'')"
  "\<not> strchr whitespace (CHR ''&'')"
  by (simp_all add: strchr_def whitespace_def NUL_def)

lemma gettoken_lt: "plain_word f \<Longrightarrow> gettoken (CHR ''<'' # f) = (CHR ''<'', ''<'', f)"
  using skip_whitespace_word [of f "[]"]
  by (simp add: gettoken_def token_at_def skip_whitespace_def deref_def NUL_def)

lemma gettoken_gt: "plain_word f \<Longrightarrow> gettoken (CHR ''>'' # f) = (CHR ''>'', ''>'', f)"
  using skip_whitespace_word [of f "[]"] deref_word [of f "[]"]
  by (auto simp: gettoken_def token_at_def skip_whitespace_def deref_def NUL_def
      split: list.splits)

lemma gettoken_gtgt:
  "plain_word f \<Longrightarrow> gettoken (CHR ''>'' # CHR ''>'' # f) = (CHR ''+'', ''>>'', f)"
  using skip_whitespace_word [of f "[]"]
  by (simp add: gettoken_def token_at_def skip_whitespace_def deref_def NUL_def)

lemma gettoken_file: "plain_word f \<Longrightarrow> gettoken f = (CHR ''a'', f, [])"
  using gettoken_word [of f "[]"] by simp

lemma parseredirs_lt:
  "plain_word f \<Longrightarrow> parseredirs c (CHR ''<'' # f) = Inr (REDIR c f {O_RDONLY} 0, [])"
  by (subst parseredirs.simps) (simp add: peek_symbol NUL_def gettoken_lt gettoken_file)

lemma parseredirs_gt:
  "plain_word f \<Longrightarrow>
   parseredirs c (CHR ''>'' # f) = Inr (REDIR c f {O_WRONLY, O_CREATE, O_TRUNC} 1, [])"
  by (subst parseredirs.simps) (simp add: peek_symbol NUL_def gettoken_gt gettoken_file)

lemma parseredirs_gtgt:
  "plain_word f \<Longrightarrow>
   parseredirs c (CHR ''>'' # CHR ''>'' # f) = Inr (REDIR c f {O_WRONLY, O_CREATE} 1, [])"
  by (subst parseredirs.simps) (simp add: peek_symbol NUL_def gettoken_gtgt gettoken_file)

lemma plain_word_a: "plain_word ''a''"
  by (simp add: plain_word_def word_char_def strchr_def whitespace_def symbols_def NUL_def)

lemma skip_whitespace_amp [simp]: "skip_whitespace (CHR ''&'' # r) = CHR ''&'' # r"
  by (simp add: skip_whitespace_def)

lemma parseline_back_amp: "parseline_back c (CHR ''&'' # r) = parseline_back (BACK c) (skip_whitespace r)"
  by (subst parseline_back.simps)
     (simp add: peek_symbol NUL_def gettoken_def token_at_def skip_whitespace_def deref_def)

lemma getcmd_read_line:
  "CHR 0x0A \<notin> set w \<Longrightarrow> i + int (length w) < nbuf - 1 \<Longrightarrow>
   getcmd_read i nbuf buf (w @ CHR 0x0A # rest) = (False, buf @ w, rest)"
  by (induction w arbitrary: i buf) auto

lemma parsecmd_blank:
  assumes "set w \<subseteq> {CHR '' '', CHR 0x09, CHR 0x0D, CHR 0x0B}"
  shows "parsecmd w = Inr (EXEC [] False)"
proof -
  have tw: "takeWhile (\<lambda>c. c \<noteq> NUL) w = w"
    using assms by (auto simp: takeWhile_eq_all_conv NUL_def)
  have "skip_whitespace w = []"
    using assms by (auto simp: skip_whitespace_def strchr_def whitespace_def)
  then have pk: "peek w ''('' = (False, [])"
    by (simp add: peek_def deref_def)
  have "parseexec w = Inr (EXEC [] False, [])"
    by (simp add: parseexec.simps pk parseexec_args.simps execcmd_def)
  then have "parseline w = Inr (EXEC [] False, [])"
    by (simp add: parseline.simps parsepipe.simps)
  then show ?thesis
    by (simp add: parsecmd_def tw)
qed

lemma getcmd_read_no_newline:
  "getcmd_read i nbuf buf inp = (eof, buf1, rest) \<Longrightarrow> CHR 0x0A \<notin> set buf \<Longrightarrow>
   CHR 0x0A \<notin> set buf1"
  by (induction i nbuf buf inp rule: getcmd_read.induct) (auto split: if_splits)

lemma getcmd_first:
  assumes "getcmd nbuf inp = (0, buf, rest)"
  shows "deref buf \<noteq> NUL \<and> deref buf \<noteq> CHR 0x0A"
proof -
  obtain eof buf1 rest1 where g: "getcmd_read 0 nbuf [] inp = (eof, buf1, rest1)"
    by (cases "getcmd_read 0 nbuf [] inp")
  with assms have b: "buf1 = buf" and d: "deref buf \<noteq> NUL"
    by (auto simp: getcmd_def split: if_splits)
  from getcmd_read_no_newline [OF g] b have "CHR 0x0A \<notin> set buf" by simp
  with d show ?thesis by (cases buf) (auto simp: deref_def)
qed

section \<open>Properties of the descriptor table and of the main loop\<close>

text \<open>
  What \<^verbatim>\<open>runcmd\<close> does to the descriptor table of the process it returns to: a descriptor
  is left as it was, or closed, or on the file of a redirection of the command. Only
  REDIR opens a file there; a PIPE closes its two descriptors in the parent, and its
  \<^verbatim>\<open>dup\<close> calls are in the children, which exit.
\<close>

lemma redirs_set_back [simp]: "redirs (set_back c) = redirs c"
  by (cases c) (simp_all add: set_back_def)

lemma redirs_mark_back [simp]: "redirs (mark_back c) = redirs c"
  by (cases c) (simp_all add: mark_back_def)

lemma runcmd_PIPE_ofile:
  assumes "runcmd (PIPE l r) st = Returned st'"
  shows "\<exists>p0 p1. ofile st' = (ofile st)(p0 := None, p1 := None)"
proof -
  obtain ret p0 p1 st1 where p: "pipe st = (ret, (p0, p1), st1)" by (cases "pipe st") auto
  from assms p have ret: "\<not> ret < 0"
    by (auto simp: runcmd.simps(4) panic_def)
  from p ret have o1: "ofile st1 = (ofile st)(p0 \<mapsto> PipeRead, p1 \<mapsto> PipeWrite)"
    by (auto simp: pipe_def split: list.splits option.splits)
  from assms p ret obtain pl st2 where f1: "fork1 st1 = Inr (pl, st2)" and pl: "pl \<noteq> 0"
    by (cases "fork1 st1")
       (auto simp: runcmd.simps(4) fork1_def panic_def split: if_splits prod.splits outcome.splits)
  from f1 have o2: "ofile st2 = ofile st1"
    by (auto simp: fork1_def fork_def split: list.splits if_splits)
  from assms p ret f1 pl obtain pr st3 where f2: "fork1 st2 = Inr (pr, st3)" and pr: "pr \<noteq> 0"
    by (cases "fork1 st2")
       (auto simp: runcmd.simps(4) fork1_def panic_def split: if_splits prod.splits outcome.splits)
  from f2 have o3: "ofile st3 = ofile st2"
    by (auto simp: fork1_def fork_def split: list.splits if_splits)
  from assms p ret f1 pl f2 pr have "ofile st' = ofile (close p1 (close p0 st3))"
    by (auto simp: runcmd.simps(4) Let_def printf_def split: if_splits)
  with o1 o2 o3 have "ofile st' = (ofile st)(p0 := None, p1 := None)"
    by (simp add: close_def)
  then show ?thesis by blast
qed

lemma runcmd_ofile_frame:
  "runcmd c st = Returned st' \<Longrightarrow>
   ofile st' d = ofile st d \<or> ofile st' d = None \<or>
   (\<exists>(f, m, fd) \<in> set (redirs c). ofile st' d = Some (File f m))"
proof (induction c st arbitrary: st' rule: runcmd.induct)
  case (1 argv bk st)
  then show ?case using runcmd_EXEC_ofile by simp
next
  case (2 c fname omode fd st)
  obtain r st1 where o: "openf fname omode (close fd st) = (r, st1)"
    by (cases "openf fname omode (close fd st)")
  show ?case
  proof (cases "r < 0")
    case True
    with "2.prems" o have "ofile st' = ofile st1"
      by (auto simp: runcmd.simps(2) fprintf_def)
    moreover from o True have "ofile st1 = (ofile st)(fd := None)"
      by (auto simp: openf_def close_def split: list.splits)
    ultimately show ?thesis by simp
  next
    case False
    with "2.prems" o have run: "runcmd c st1 = Returned st'"
      by (simp add: runcmd.simps(2))
    from o False have o1: "ofile st1 = (ofile st)(fd := None, r \<mapsto> File fname omode)"
      by (auto simp: openf_def close_def split: list.splits)
    from "2.IH" [OF o [symmetric] False run]
    show ?thesis using o1 by (auto split: if_splits)
  qed
next
  case (3 l r st)
  from "3.prems" obtain st1 where l: "runcmd l st = Returned st1" and r: "runcmd r st1 = Returned st'"
    by (auto simp: runcmd.simps(3) split: outcome.splits)
  from "3.IH"(1) [OF l] "3.IH"(2) [OF l r] show ?case by fastforce
next
  case (4 l r st)
  from runcmd_PIPE_ofile [OF "4.prems"] show ?case by auto
next
  case (5 c st)
  from "5.prems" have "runcmd (mark_back c) st = Returned st'" by (simp add: runcmd.simps(5))
  from "5.IH" [OF this] show ?case by simp
qed


lemma next_line_step:
  assumes "next_line fd st inp = Some (st', inp')"
  shows "main_loop fd st inp = main_loop fd st' inp' \<and>
         (ofile st' d = ofile st d \<or> ofile st' d = None \<or>
          (\<exists>f m. ofile st' d = Some (File f m)))"
proof -
  let ?st1 = "if fd = 0 then fprintf 2 ''$ '' st else st"
  obtain r buf rest where g: "getcmd 100 inp = (r, buf, rest)" by (cases "getcmd 100 inp")
  from assms g have r: "\<not> r < 0" by (auto simp: next_line_def)
  from assms g r obtain cmd where p: "parsecmd buf = Inr cmd"
    by (cases "parsecmd buf") (auto simp: next_line_def)
  from assms g r p obtain st2 where run: "runcmd cmd ?st1 = Returned st2"
    and st': "st' = (if fd = 0 then reap_zombies st2 else st2)" and inp': "inp' = rest"
    by (cases "runcmd cmd ?st1") (auto simp: next_line_def)
  have r0: "r = 0" using g r by (auto simp: getcmd_def split: prod.splits if_splits)
  have d: "deref buf \<noteq> NUL \<and> deref buf \<noteq> CHR 0x0A"
    using g r0 getcmd_first by blast
  have loop: "main_loop fd st inp = main_loop fd st' inp'"
    using g r d p run st' inp' by (subst main_loop.simps) (simp add: Let_def)
  have o1: "ofile ?st1 = ofile st" by (simp add: fprintf_def)
  have o2: "ofile st' = ofile st2" using st' by simp
  from runcmd_ofile_frame [OF run, of d] o1 o2
  have "ofile st' d = ofile st d \<or> ofile st' d = None \<or>
          (\<exists>f m. ofile st' d = Some (File f m))"
    by auto
  with loop show ?thesis by simp
qed

lemma after_lines_steps:
  "after_lines n fd st inp = Some (st', inp') \<Longrightarrow>
   main_loop fd st inp = main_loop fd st' inp' \<and>
   (ofile st' d = ofile st d \<or> ofile st' d = None \<or>
    (\<exists>f m. ofile st' d = Some (File f m)))"
proof (induction n arbitrary: st inp)
  case 0
  then show ?case by simp
next
  case (Suc n)
  from Suc.prems obtain st1 inp1 where n1: "next_line fd st inp = Some (st1, inp1)"
    and rest: "after_lines n fd st1 inp1 = Some (st', inp')"
    by (auto split: option.splits)
  from next_line_step [OF n1, of d] Suc.IH [OF rest] show ?case by auto
qed

section \<open>The claims\<close>

text \<open>
  C1, as the code has it. While the shell waits for the foreground child \<open>F\<close>, let the
  host return the children of \<open>pre\<close> (each once, none of them \<open>F\<close>) and then \<open>F\<close>. Then
  \<^verbatim>\<open>wait_for_foreground\<close> stops exactly when \<open>F\<close> is reaped (the later results \<open>post\<close> are left
  to the host). A reaped pid that is in the job table has its slot cleared and its
  status printed in one notice, in the order the children were reaped; a reaped pid that
  is not in the table is dropped with no notice (\<^verbatim>\<open>reap_background_job\<close> tests
  \<^verbatim>\<open>is_bg_job\<close> first). Nothing else of the process changes. The second part counts the
  slots: every reaped pid of the table loses one slot, every other pid keeps its slots.
\<close>

theorem wait_for_foreground_reaps_tracked:
  assumes "wait_results st = pre @ (F, s) # post"
    and "F \<notin> fst ` set pre" and "\<forall>p \<in> fst ` set pre. 0 < p" and "0 < F"
    and "distinct (map fst pre)"
  shows "wait_for_foreground F st =
     st\<lparr>bg_jobs := fold remove_job (map fst pre) (bg_jobs st),
        out := out st @ map (\<lambda>(p, t). (1, bg_notice p t))
                 (filter (\<lambda>(p, t). p \<in> set (bg_jobs st)) pre),
        wait_results := post\<rparr>
   \<and> (\<forall>q. q \<noteq> 0 \<longrightarrow>
        count_list (bg_jobs (wait_for_foreground F st)) q =
          (if q \<in> fst ` set pre \<and> q \<in> set (bg_jobs st)
           then count_list (bg_jobs st) q - 1 else count_list (bg_jobs st) q))"
proof -
  have eq: "wait_for_foreground F st =
     st\<lparr>bg_jobs := fold remove_job (map fst pre) (bg_jobs st),
        out := out st @ map (\<lambda>(p, t). (1, bg_notice p t))
                 (filter (\<lambda>(p, t). p \<in> set (bg_jobs st)) pre),
        wait_results := post\<rparr>"
    using assms by (rule wait_for_foreground_state)
  have "0 \<notin> set (map fst pre)" using assms(3) by auto
  with assms(5) have "\<And>q. q \<noteq> 0 \<Longrightarrow>
        count_list (fold remove_job (map fst pre) (bg_jobs st)) q =
          (if q \<in> set (map fst pre) \<and> q \<in> set (bg_jobs st)
           then count_list (bg_jobs st) q - 1 else count_list (bg_jobs st) q)"
    by (simp add: count_fold_remove_job)
  with eq show ?thesis by simp
qed

theorem wait_for_foreground_reaps_tracked_witness:
  "wait_for_foreground 5
     ((start 2)\<lparr>bg_jobs := [7, 0], wait_results := [(7, 3), (5, 0), (9, 1)]\<rparr>) =
   (start 2)\<lparr>bg_jobs := [0, 0], out := [(1, bg_notice 7 3)], wait_results := [(9, 1)]\<rparr>"
  using wait_for_foreground_reaps_tracked
    [of "(start 2)\<lparr>bg_jobs := [7, 0], wait_results := [(7, 3), (5, 0), (9, 1)]\<rparr>"
      "[(7, 3)]" 5 0 "[(9, 1)]"]
  by (simp add: start_def)

text \<open>
  C1 as stated fails: with an empty job table, the wait for child 5 first returns child
  7 with status 3 (the right side of a foreground pipeline, say, or a job that found
  the table full); no notice about it is printed.
\<close>

theorem wait_for_foreground_untracked_silent:
  "fst (wait ((start 2)\<lparr>wait_results := [(7, 3), (5, 0)]\<rparr>)) = (7, 3) \<and>
   out (wait_for_foreground 5 ((start 2)\<lparr>wait_results := [(7, 3), (5, 0)]\<rparr>)) = []"
  by (simp add: wait_for_foreground.simps wait_def reap_background_job_def start_def
      numeral_2_eq_2)

text \<open>
  C2 does not hold of the code; this is what the code does on such lines. An empty line
  makes \<^verbatim>\<open>getcmd\<close> return -1 (its test \<^verbatim>\<open>buf[0] == 0\<close>), so the loop of \<^verbatim>\<open>main\<close> breaks and the
  shell exits with status 0; the lines behind it are never read. A line of spaces, tabs,
  carriage returns or vertical tabs parses to an EXEC with no argument, and \<^verbatim>\<open>runcmd\<close>,
  called in the shell's own process, calls \<^verbatim>\<open>exit(1)\<close>. In both cases no process is created
  and nothing is written but the prompt.
\<close>

theorem blank_line_ends_session:
  "main_loop fd st (CHR 0x0A # rest) = Exited 0 (if fd = 0 then fprintf 2 ''$ '' st else st) \<and>
   (w \<noteq> [] \<and> set w \<subseteq> {CHR '' '', CHR 0x09, CHR 0x0D, CHR 0x0B} \<and> length w < 99 \<longrightarrow>
      main_loop fd st (w @ CHR 0x0A # rest) =
        Exited 1 (if fd = 0 then fprintf 2 ''$ '' st else st))"
proof -
  have e: "main_loop fd st (CHR 0x0A # rest) = Exited 0 (if fd = 0 then fprintf 2 ''$ '' st else st)"
    by (simp add: main_loop.simps getcmd_def deref_def NUL_def)
  have "main_loop fd st (w @ CHR 0x0A # rest) =
        Exited 1 (if fd = 0 then fprintf 2 ''$ '' st else st)"
    if w: "w \<noteq> []" "set w \<subseteq> {CHR '' '', CHR 0x09, CHR 0x0D, CHR 0x0B}" "length w < 99"
  proof -
    from w(2) have nn: "CHR 0x0A \<notin> set w" by auto
    have r: "getcmd_read 0 100 [] (w @ CHR 0x0A # rest) = (False, w, rest)"
      using getcmd_read_line [OF nn, of 0 100 "[]" rest] w(3) by simp
    from w(1,2) have d: "deref w \<noteq> NUL" "deref w \<noteq> CHR 0x0A"
      by (cases w; auto simp: deref_def NUL_def)+
    have g: "getcmd 100 (w @ CHR 0x0A # rest) = (0, w, rest)"
      using r d by (simp add: getcmd_def)
    show ?thesis
      using g d parsecmd_blank [OF w(2)]
      by (subst main_loop.simps) (simp add: runcmd.simps Let_def)
  qed
  with e show ?thesis by blast
qed

theorem blank_line_ends_session_witness:
  "main_loop 0 (start 2) (nl @ ''echo hi'' @ nl) = Exited 0 ((start 2)\<lparr>out := [(2, ''$ '')]\<rparr>) \<and>
   main_loop 0 (start 2) (''  '' @ nl @ ''echo hi'' @ nl) = Exited 1 ((start 2)\<lparr>out := [(2, ''$ '')]\<rparr>)"
  using blank_line_ends_session [of 0 "start 2" "''echo hi'' @ nl" "''  ''"]
  by (simp add: nl_def fprintf_def start_def)

text \<open>
  C3, as the code has it. For a command that is not a built-in: in the child (\<^verbatim>\<open>fork\<close>
  returned 0), when \<^verbatim>\<open>exec\<close> fails the child writes \<^verbatim>\<open>exec <program> failed\<close> to descriptor 2
  and exits with status 0 (the source says \<^verbatim>\<open>exit(0); // Use 0 for failure\<close>). In the parent
  the call does not depend on what happens to the child: the parent waits for the pid
  with \<^verbatim>\<open>wait_for_foreground\<close>, and whatever status the child ends with, the parent consumes
  that one result of \<^verbatim>\<open>wait\<close> and changes nothing else.
\<close>

theorem exec_failure_exits_zero:
  assumes "a0 \<noteq> ''cd''" and "a0 \<noteq> ''jobs''"
  shows "(fork_results st = 0 # fs \<and> exec_results st = False # es \<longrightarrow>
      runcmd (EXEC (a0 # args) back) st =
        Exited 0 (st\<lparr>out := out st @ [(2, ''exec '' @ a0 @ '' failed'' @ nl)],
                     fork_results := fs, exec_results := es\<rparr>))
   \<and> (fork_results st = pid # fs \<and> pid \<noteq> 0 \<and> pid \<noteq> - 1 \<longrightarrow>
      runcmd (EXEC (a0 # args) False) st =
        Returned (wait_for_foreground pid (st\<lparr>fork_results := fs\<rparr>)))
   \<and> (fork_results st = pid # fs \<and> 0 < pid \<and> wait_results st = (pid, status) # ws \<longrightarrow>
      runcmd (EXEC (a0 # args) False) st =
        Returned (st\<lparr>fork_results := fs, wait_results := ws\<rparr>))"
  using assms
  by (simp add: runcmd.simps fork1_def fork_def exec_def fprintf_def
      wait_for_foreground.simps wait_def)

theorem exec_failure_exits_zero_witness:
  "runcmd (EXEC [''nosuch''] False) ((start 2)\<lparr>fork_results := [0], exec_results := [False]\<rparr>) =
     Exited 0 ((start 2)\<lparr>out := [(2, ''exec nosuch failed'' @ nl)]\<rparr>) \<and>
   runcmd (EXEC [''nosuch''] False) ((start 2)\<lparr>fork_results := [8], wait_results := [(8, 0)]\<rparr>) =
     Returned (start 2)"
  using exec_failure_exits_zero
      [of "''nosuch''" "(start 2)\<lparr>fork_results := [0], exec_results := [False]\<rparr>"
        "[]" "[]" "[]" False 0 0 "[]"]
    exec_failure_exits_zero
      [of "''nosuch''" "(start 2)\<lparr>fork_results := [8], wait_results := [(8, 0)]\<rparr>"
        "[]" "[]" "[]" False 8 0 "[]"]
  by (simp add: start_def wait_for_foreground.simps wait_def)

text \<open>
  C3 as stated fails: the child whose \<^verbatim>\<open>exec\<close> of \<^verbatim>\<open>nosuch\<close> fails ends with status 0, not
  with a non-zero status.
\<close>

theorem exec_failure_status:
  "runcmd (EXEC [''nosuch''] False) ((start 2)\<lparr>fork_results := [0], exec_results := [False]\<rparr>) =
     Exited 0 ((start 2)\<lparr>out := [(2, ''exec nosuch failed'' @ nl)]\<rparr>)"
  by (simp add: runcmd.simps fork1_def fork_def exec_def fprintf_def start_def)

text \<open>
  C4, as the code has it. A PIPE reaches \<^verbatim>\<open>runcmd\<close> either as the parser built it (\<open>l0\<close> and
  \<open>r0\<close>, no flag set on them: \<open>parsecmd_ok\<close>, \<open>parsed_ok_top_unmarked\<close>) or after the marking
  pass of a BACK around it (\<open>set_back l0\<close> and \<open>set_back r0\<close>); nothing else writes the flag.
  The theorem is about the parent, the process in which the pipe is created and both
  forks return a pid. When the left or the right command is an EXEC marked background,
  the parent hands both pids to \<^verbatim>\<open>add_job\<close>, left then right, writes the one line
  \<^verbatim>\<open>[<left pid>]\<close> to descriptor 1 (the text of the line determines the pid), and consumes
  no \<^verbatim>\<open>wait\<close> result. \<^verbatim>\<open>add_job\<close> stores a pid in the first free slot and drops it when no
  slot is free: with two free slots both pids are in the table afterwards; with one
  free slot the left pid is stored and the call for the right pid changes nothing; with
  no free slot the table is as before. Otherwise the parent runs \<^verbatim>\<open>wait_for_foreground\<close>
  for the left pid and then for the right pid. In both cases the two pipe descriptors
  are closed in the parent.
\<close>

theorem pipe_background_or_wait:
  assumes "top_unmarked l0" and "top_unmarked r0"
    and "(l, r) = (l0, r0) \<or> (l, r) = (set_back l0, set_back r0)"
    and "pipe_results st = Some (p0, p1) # ps"
    and "fork_results st = pid_left # pid_right # fs"
    and "pid_left \<noteq> 0" and "pid_left \<noteq> - 1" and "pid_right \<noteq> 0" and "pid_right \<noteq> - 1"
  shows "runcmd (PIPE l r) st =
     Returned
       (if exec_marked l \<or> exec_marked r
        then st\<lparr>bg_jobs := add_job pid_right (add_job pid_left (bg_jobs st)),
                ofile := (ofile st)(p0 := None, p1 := None),
                out := out st @ [(1, ''['' @ show_int pid_left @ '']'' @ nl)],
                fork_results := fs, pipe_results := ps\<rparr>
        else wait_for_foreground pid_right (wait_for_foreground pid_left
               (st\<lparr>ofile := (ofile st)(p0 := None, p1 := None),
                   fork_results := fs, pipe_results := ps\<rparr>)))
   \<and> (2 \<le> count_list (bg_jobs st) 0 \<longrightarrow>
        pid_left \<in> set (add_job pid_right (add_job pid_left (bg_jobs st))) \<and>
        pid_right \<in> set (add_job pid_right (add_job pid_left (bg_jobs st))))
   \<and> (count_list (bg_jobs st) 0 = 1 \<longrightarrow>
        add_job pid_right (add_job pid_left (bg_jobs st)) = add_job pid_left (bg_jobs st) \<and>
        pid_left \<in> set (add_job pid_left (bg_jobs st)))
   \<and> (0 \<notin> set (bg_jobs st) \<longrightarrow>
        add_job pid_right (add_job pid_left (bg_jobs st)) = bg_jobs st)
   \<and> (\<forall>q. ''['' @ show_int pid_left @ '']'' @ nl = ''['' @ show_int q @ '']'' @ nl \<longrightarrow>
          q = pid_left)"
proof -
  have bg: "is_background l r = (exec_marked l \<or> exec_marked r)"
    using assms(1-3) by (auto simp: is_background_unmarked is_background_marked)
  have st4: "st\<lparr>pipe_results := ps, fork_results := fs,
                 ofile := (ofile st)(p0 := None, p1 := None)\<rparr> =
             st\<lparr>ofile := (ofile st)(p0 := None, p1 := None),
                 fork_results := fs, pipe_results := ps\<rparr>"
    by simp
  have run: "runcmd (PIPE l r) st =
     Returned
       (if exec_marked l \<or> exec_marked r
        then st\<lparr>bg_jobs := add_job pid_right (add_job pid_left (bg_jobs st)),
                ofile := (ofile st)(p0 := None, p1 := None),
                out := out st @ [(1, ''['' @ show_int pid_left @ '']'' @ nl)],
                fork_results := fs, pipe_results := ps\<rparr>
        else wait_for_foreground pid_right (wait_for_foreground pid_left
               (st\<lparr>ofile := (ofile st)(p0 := None, p1 := None),
                   fork_results := fs, pipe_results := ps\<rparr>)))"
    using assms(4-9)
    by (simp add: runcmd.simps pipe_def fork1_def fork_def close_def printf_def bg Let_def st4
        job_line_def)
  have two: "2 \<le> count_list (bg_jobs st) 0 \<longrightarrow>
        pid_left \<in> set (add_job pid_right (add_job pid_left (bg_jobs st))) \<and>
        pid_right \<in> set (add_job pid_right (add_job pid_left (bg_jobs st)))"
    using two_free_slots [of "bg_jobs st" pid_left pid_right] assms(6,8) by blast
  have one: "count_list (bg_jobs st) 0 = 1 \<longrightarrow>
        add_job pid_right (add_job pid_left (bg_jobs st)) = add_job pid_left (bg_jobs st) \<and>
        pid_left \<in> set (add_job pid_left (bg_jobs st))"
    using one_free_slot [of "bg_jobs st" pid_left pid_right] assms(6) by blast
  have none: "0 \<notin> set (bg_jobs st) \<longrightarrow>
        add_job pid_right (add_job pid_left (bg_jobs st)) = bg_jobs st"
    by (simp add: add_job_full)
  have inj: "\<forall>q. ''['' @ show_int pid_left @ '']'' @ nl = ''['' @ show_int q @ '']'' @ nl \<longrightarrow>
          q = pid_left"
    using job_text_inj by blast
  from run two one none inj show ?thesis by (intro conjI)
qed

theorem pipe_background_or_wait_witness:
  "runcmd (PIPE (EXEC [''ls''] True) (EXEC [''wc''] True))
      ((start 3)\<lparr>pipe_results := [Some (3, 4)], fork_results := [5, 6]\<rparr>) =
     Returned ((start 3)\<lparr>bg_jobs := [5, 6, 0], out := [(1, ''[5]'' @ nl)]\<rparr>)
   \<and> runcmd (PIPE (EXEC [''ls''] True) (EXEC [''wc''] True))
      ((start 2)\<lparr>bg_jobs := [8, 0], pipe_results := [Some (3, 4)], fork_results := [5, 6]\<rparr>) =
     Returned ((start 2)\<lparr>bg_jobs := [8, 5], out := [(1, ''[5]'' @ nl)]\<rparr>)
   \<and> runcmd (PIPE (EXEC [''ls''] True) (EXEC [''wc''] True))
      ((start 2)\<lparr>bg_jobs := [8, 9], pipe_results := [Some (3, 4)], fork_results := [5, 6]\<rparr>) =
     Returned ((start 2)\<lparr>bg_jobs := [8, 9], out := [(1, ''[5]'' @ nl)]\<rparr>)
   \<and> runcmd (PIPE (EXEC [''ls''] False) (EXEC [''wc''] False))
      ((start 3)\<lparr>pipe_results := [Some (3, 4)], fork_results := [5, 6],
          wait_results := [(5, 0), (6, 0)]\<rparr>) =
     Returned (start 3)"
  using pipe_background_or_wait
      [of "EXEC [''ls''] False" "EXEC [''wc''] False" "EXEC [''ls''] True" "EXEC [''wc''] True"
        "(start 3)\<lparr>pipe_results := [Some (3, 4)], fork_results := [5, 6]\<rparr>" 3 4 "[]" 5 6 "[]"]
    pipe_background_or_wait
      [of "EXEC [''ls''] False" "EXEC [''wc''] False" "EXEC [''ls''] True" "EXEC [''wc''] True"
        "(start 2)\<lparr>bg_jobs := [8, 0], pipe_results := [Some (3, 4)], fork_results := [5, 6]\<rparr>"
        3 4 "[]" 5 6 "[]"]
    pipe_background_or_wait
      [of "EXEC [''ls''] False" "EXEC [''wc''] False" "EXEC [''ls''] True" "EXEC [''wc''] True"
        "(start 2)\<lparr>bg_jobs := [8, 9], pipe_results := [Some (3, 4)], fork_results := [5, 6]\<rparr>"
        3 4 "[]" 5 6 "[]"]
    pipe_background_or_wait
      [of "EXEC [''ls''] False" "EXEC [''wc''] False" "EXEC [''ls''] False" "EXEC [''wc''] False"
        "(start 3)\<lparr>pipe_results := [Some (3, 4)], fork_results := [5, 6],
            wait_results := [(5, 0), (6, 0)]\<rparr>" 3 4 "[]" 5 6 "[]"]
  by (simp add: top_unmarked_def exec_marked_def set_back_def start_def numeral_3_eq_3
      numeral_2_eq_2 wait_for_foreground.simps wait_def fun_eq_iff show_int_5)

text \<open>
  C4 as stated fails: with one free slot in the job table the background pipeline
  \<^verbatim>\<open>ls | wc &\<close> (children 5 and 6) stores the left pid only; the right pid 6 is not in the
  table afterwards.
\<close>

theorem pipe_right_pid_not_stored:
  "runcmd (PIPE (EXEC [''ls''] True) (EXEC [''wc''] True))
      ((start 2)\<lparr>bg_jobs := [9, 0], pipe_results := [Some (3, 4)], fork_results := [5, 6]\<rparr>) =
     Returned ((start 2)\<lparr>bg_jobs := [9, 5], out := [(1, ''[5]'' @ nl)]\<rparr>)
   \<and> 6 \<notin> set [9, 5 :: int]"
  by (simp add: runcmd.simps pipe_def fork1_def fork_def close_def printf_def is_background_def
      job_line_def start_def fun_eq_iff show_int_5)

text \<open>
  C5. Running a BACK node is running the wrapped tree after one marking pass
  (\<open>mark_back\<close>). The pass sets the flag of a wrapped EXEC; of a wrapped PIPE it sets the
  flag of the left command and of the right command, each only when it is an EXEC, and
  leaves every deeper node as it is; a wrapped LIST, REDIR or BACK is left unchanged as
  a whole.
\<close>

theorem back_marks_shallow:
  "runcmd (BACK c) st = runcmd (mark_back c) st \<and>
   mark_back (EXEC argv b) = EXEC argv True \<and>
   mark_back (PIPE l r) =
     PIPE (case l of EXEC a b \<Rightarrow> EXEC a True | _ \<Rightarrow> l)
          (case r of EXEC a b \<Rightarrow> EXEC a True | _ \<Rightarrow> r) \<and>
   mark_back (LIST l r) = LIST l r \<and>
   mark_back (REDIR c file omode fd) = REDIR c file omode fd \<and>
   mark_back (BACK c) = BACK c"
  by (simp add: runcmd.simps mark_back_def set_back_def)




text \<open>
  C7, as the code has it. A line that starts with MAXARGS words or more makes the parse
  fail with \<^verbatim>\<open>too many args\<close> (the process ends before \<^verbatim>\<open>runcmd\<close> is called); a line of fewer
  than MAXARGS words parses to the EXEC of these words. So the EXEC of every tree that
  \<^verbatim>\<open>parsecmd\<close> returns holds at most MAXARGS - 1 arguments. When \<^verbatim>\<open>parsecmd\<close> fails on a line,
  the loop of \<^verbatim>\<open>main\<close> ends the shell with status 1 and what the failure wrote, and
  \<^verbatim>\<open>runcmd\<close> is not called. \<^verbatim>\<open>runcmd\<close> does not look at the number of arguments: the child
  hands any argument list to \<^verbatim>\<open>exec\<close>.
\<close>

theorem maxargs_enforced_at_parse:
  assumes "\<forall>w \<in> set ws. plain_word w"
  shows "(MAXARGS \<le> length ws \<longrightarrow>
        parsecmd (command_line ws @ r) = Inl [(2, ''too many args'' @ nl)]) \<and>
     (length ws < MAXARGS \<longrightarrow> parsecmd (command_line ws) = Inr (EXEC ws False)) \<and>
     (\<forall>cmd. parsecmd buf = Inr cmd \<longrightarrow>
        (\<forall>(argv, b) \<in> set (execs cmd). length argv < MAXARGS)) \<and>
     (getcmd 100 inp = (0, buf, rest) \<and> parsecmd buf = Inl msgs \<longrightarrow>
        main_loop fd st inp =
          Exited 1 ((if fd = 0 then fprintf 2 ''$ '' st else st)
                     \<lparr>out := out (if fd = 0 then fprintf 2 ''$ '' st else st) @ msgs\<rparr>)) \<and>
     (a0 \<noteq> ''cd'' \<and> a0 \<noteq> ''jobs'' \<and> fork_results st = 0 # fs \<and> exec_results st = True # es \<longrightarrow>
        runcmd (EXEC (a0 # args) b) st =
          Execd (a0 # args) (st\<lparr>fork_results := fs, exec_results := es\<rparr>))"
proof -
  have "\<forall>cmd. parsecmd buf = Inr cmd \<longrightarrow>
        (\<forall>(argv, b) \<in> set (execs cmd). length argv < MAXARGS)"
    using parsed_ok_execs [OF parsecmd_ok] by blast
  moreover have "a0 \<noteq> ''cd'' \<and> a0 \<noteq> ''jobs'' \<and> fork_results st = 0 # fs \<and>
        exec_results st = True # es \<longrightarrow>
        runcmd (EXEC (a0 # args) b) st =
          Execd (a0 # args) (st\<lparr>fork_results := fs, exec_results := es\<rparr>)"
    by (simp add: runcmd.simps fork1_def fork_def exec_def)
  moreover have "getcmd 100 inp = (0, buf, rest) \<and> parsecmd buf = Inl msgs \<longrightarrow>
        main_loop fd st inp =
          Exited 1 ((if fd = 0 then fprintf 2 ''$ '' st else st)
                     \<lparr>out := out (if fd = 0 then fprintf 2 ''$ '' st else st) @ msgs\<rparr>)"
  proof
    assume a: "getcmd 100 inp = (0, buf, rest) \<and> parsecmd buf = Inl msgs"
    then have "deref buf \<noteq> NUL \<and> deref buf \<noteq> CHR 0x0A" using getcmd_first by blast
    with a show "main_loop fd st inp =
          Exited 1 ((if fd = 0 then fprintf 2 ''$ '' st else st)
                     \<lparr>out := out (if fd = 0 then fprintf 2 ''$ '' st else st) @ msgs\<rparr>)"
      by (subst main_loop.simps) (simp add: Let_def)
  qed
  ultimately show ?thesis
    using assms by (simp add: parsecmd_too_many parsecmd_command_line)
qed

theorem maxargs_enforced_at_parse_witness:
  "parsecmd ''a a a a a a a a a a a '' = Inl [(2, ''too many args'' @ nl)] \<and>
   parsecmd ''a a a '' = Inr (EXEC [''a'', ''a'', ''a''] False) \<and>
   main_loop 3 (start 2) (''a a a a a a a a a a '' @ nl @ ''ls'' @ nl) =
     Exited 1 ((start 2)\<lparr>out := [(2, ''too many args'' @ nl)]\<rparr>) \<and>
   runcmd (EXEC (replicate 12 ''a'') False)
       ((start 2)\<lparr>fork_results := [0], exec_results := [True]\<rparr>) =
     Execd (replicate 12 ''a'') (start 2)"
proof -
  have g: "getcmd 100 (''a a a a a a a a a a '' @ nl @ ''ls'' @ nl) =
      (0, ''a a a a a a a a a a '', ''ls'' @ nl)"
    by code_simp
  have p: "parsecmd ''a a a a a a a a a a '' = Inl [(2, ''too many args'' @ nl)]"
    by code_simp
  have w: "\<forall>w \<in> set (replicate n ''a''). plain_word w" for n
    by (simp add: plain_word_a)
  show ?thesis
    using maxargs_enforced_at_parse [OF w [of 11],
        of "[]" "[]" "[]" "[]" "[]" 0 "start 0" "[]" "[]" "[]" "[]" False]
      maxargs_enforced_at_parse [OF w [of 3], of "[]" "''a a a a a a a a a a ''"
        "''a a a a a a a a a a '' @ nl @ ''ls'' @ nl" "''ls'' @ nl" "[(2, ''too many args'' @ nl)]" 3
        "start 2" "[]" "[]" "[]" "[]" False] g p
      maxargs_enforced_at_parse [OF w [of 3], of "[]" "[]" "[]" "[]" "[]" 0
        "(start 2)\<lparr>fork_results := [0], exec_results := [True]\<rparr>" "''a''" "[]" "[]"
        "replicate 11 ''a''" False]
    by (simp add: MAXARGS_def command_line_def numeral_nat start_def)
qed

text \<open>
  C7 as stated fails: an argv does not hold MAXARGS arguments. A line of exactly
  MAXARGS words is rejected with \<^verbatim>\<open>too many args\<close>.
\<close>

theorem maxargs_words_rejected:
  "length [''a'', ''a'', ''a'', ''a'', ''a'', ''a'', ''a'', ''a'', ''a'', ''a''] = MAXARGS \<and>
   parsecmd ''a a a a a a a a a a'' = Inl [(2, ''too many args'' @ nl)]"
  by code_simp

text \<open>
  C8. Running a BACK that wraps a BACK is running the inner BACK: the outer marking pass
  changes nothing, so from any state both run the same marked tree with the same
  outcome. And the parser builds these trees: when the pipeline of a line parses to \<open>c\<close>
  and \<^verbatim>\<open>& &\<close> is what is left, \<^verbatim>\<open>parseline\<close> returns BACK (BACK c); when \<^verbatim>\<open>&\<close> is left, BACK c.
\<close>

theorem back_twice_same:
  "runcmd (BACK (BACK c)) st = runcmd (BACK c) st \<and>
   (parsepipe ps = Inr (c, ''& &'') \<longrightarrow> parseline ps = Inr (BACK (BACK c), [])) \<and>
   (parsepipe ps = Inr (c, ''&'') \<longrightarrow> parseline ps = Inr (BACK c, []))"
  by (simp add: runcmd.simps mark_back_def parseline.simps parseline_back_amp)

theorem back_twice_same_witness:
  "parseline ''ls & &'' = Inr (BACK (BACK (EXEC [''ls''] False)), []) \<and>
   parseline ''ls &'' = Inr (BACK (EXEC [''ls''] False), [])"
proof -
  have "parsepipe ''ls & &'' = Inr (EXEC [''ls''] False, ''& &'')" by code_simp
  moreover have "parsepipe ''ls &'' = Inr (EXEC [''ls''] False, ''&'')" by code_simp
  ultimately show ?thesis
    using back_twice_same [of "EXEC [''ls''] False" "start 0" "''ls & &''"]
      back_twice_same [of "EXEC [''ls''] False" "start 0" "''ls &''"]
    by simp
qed

text \<open>
  C9, as the code has it. \<^verbatim>\<open>runcmd\<close> on a REDIR, in the process that calls it, closes the
  descriptor of the redirection and calls \<^verbatim>\<open>open\<close>; it never compares the descriptor that
  \<^verbatim>\<open>open\<close> returns with the one it closed. When \<^verbatim>\<open>open\<close> fails, \<^verbatim>\<open>runcmd\<close> returns with the
  descriptor closed and \<^verbatim>\<open>open <file> failed\<close> written. When \<^verbatim>\<open>open\<close> returns a descriptor \<open>r\<close>,
  the wrapped command runs with the closed descriptor closed and \<open>r\<close> on the file. Whatever
  the wrapped command is and whatever the host returns, when the REDIR returns, its
  descriptor is closed or on the file of a redirection of the command, and every
  descriptor of the process is as before, closed, or on such a file. The loop of \<^verbatim>\<open>main\<close>
  calls \<^verbatim>\<open>runcmd\<close> in the shell's own process: after any number \<open>n\<close> of lines the loop goes
  on from the state these lines left, where every descriptor is as it was before these
  lines, closed, or on a file; so a descriptor that is on the console after these lines
  was on the console before them.
\<close>

theorem redirect_persists:
  "(open_results st = r # rs \<and> r < 0 \<longrightarrow>
      runcmd (REDIR c file omode fd) st =
        Returned (st\<lparr>ofile := (ofile st)(fd := None),
                     out := out st @ [(2, ''open '' @ file @ '' failed'' @ nl)],
                     open_results := rs\<rparr>)) \<and>
   (open_results st = r # rs \<and> 0 \<le> r \<longrightarrow>
      runcmd (REDIR c file omode fd) st =
        runcmd c (st\<lparr>ofile := (ofile st)(fd := None, r \<mapsto> File file omode),
                      open_results := rs\<rparr>)) \<and>
   (runcmd (REDIR c file omode fd) st = Returned st' \<longrightarrow>
      ofile st' fd = None \<or>
      (\<exists>(f, m, d) \<in> set (redirs (REDIR c file omode fd)). ofile st' fd = Some (File f m))) \<and>
   (runcmd cmd st = Returned st' \<longrightarrow>
      (\<forall>d. ofile st' d = ofile st d \<or> ofile st' d = None \<or>
           (\<exists>(f, m, d') \<in> set (redirs cmd). ofile st' d = Some (File f m)))) \<and>
   (after_lines n fd0 st inp = Some (st2, inp2) \<longrightarrow>
      main_loop fd0 st inp = main_loop fd0 st2 inp2 \<and>
      (\<forall>d. ofile st2 d = ofile st d \<or> ofile st2 d = None \<or>
           (\<exists>f m. ofile st2 d = Some (File f m))) \<and>
      (\<forall>d. ofile st2 d = Some Console \<longrightarrow> ofile st d = Some Console))"
proof (intro conjI impI)
  assume "open_results st = r # rs \<and> r < 0"
  then show "runcmd (REDIR c file omode fd) st =
        Returned (st\<lparr>ofile := (ofile st)(fd := None),
                     out := out st @ [(2, ''open '' @ file @ '' failed'' @ nl)],
                     open_results := rs\<rparr>)"
    by (simp add: runcmd.simps openf_def close_def fprintf_def)
next
  assume "open_results st = r # rs \<and> 0 \<le> r"
  then show "runcmd (REDIR c file omode fd) st =
        runcmd c (st\<lparr>ofile := (ofile st)(fd := None, r \<mapsto> File file omode),
                      open_results := rs\<rparr>)"
    by (simp add: runcmd.simps openf_def close_def)
next
  assume run: "runcmd (REDIR c file omode fd) st = Returned st'"
  obtain r1 st1 where o: "openf file omode (close fd st) = (r1, st1)"
    by (cases "openf file omode (close fd st)")
  show "ofile st' fd = None \<or>
      (\<exists>(f, m, d) \<in> set (redirs (REDIR c file omode fd)). ofile st' fd = Some (File f m))"
  proof (cases "r1 < 0")
    case True
    with run o have "ofile st' = ofile st1" by (auto simp: runcmd.simps(2) fprintf_def)
    moreover from o True have "ofile st1 = (ofile st)(fd := None)"
      by (auto simp: openf_def close_def split: list.splits)
    ultimately show ?thesis by simp
  next
    case False
    with run o have inner: "runcmd c st1 = Returned st'" by (simp add: runcmd.simps(2))
    from o False have o1: "ofile st1 = (ofile st)(fd := None, r1 \<mapsto> File file omode)"
      by (auto simp: openf_def close_def split: list.splits)
    from runcmd_ofile_frame [OF inner, of fd] o1 show ?thesis
      by (auto split: if_splits)
  qed
next
  assume "runcmd cmd st = Returned st'"
  then show "\<forall>d. ofile st' d = ofile st d \<or> ofile st' d = None \<or>
           (\<exists>(f, m, d') \<in> set (redirs cmd). ofile st' d = Some (File f m))"
    using runcmd_ofile_frame by blast
next
  assume "after_lines n fd0 st inp = Some (st2, inp2)"
  then show "main_loop fd0 st inp = main_loop fd0 st2 inp2"
    using after_lines_steps by blast
next
  assume "after_lines n fd0 st inp = Some (st2, inp2)"
  then show "\<forall>d. ofile st2 d = ofile st d \<or> ofile st2 d = None \<or>
           (\<exists>f m. ofile st2 d = Some (File f m))"
    using after_lines_steps by blast
next
  assume a: "after_lines n fd0 st inp = Some (st2, inp2)"
  show "\<forall>d. ofile st2 d = Some Console \<longrightarrow> ofile st d = Some Console"
  proof (intro allI impI)
    fix d
    assume "ofile st2 d = Some Console"
    with after_lines_steps [OF a, of d] show "ofile st d = Some Console" by auto
  qed
qed

theorem redirect_persists_witness:
  "runcmd (REDIR (EXEC [''ls''] False) ''nofile'' {O_RDONLY} 0)
       ((start 2)\<lparr>open_results := [- 1]\<rparr>) =
     Returned ((start 2)\<lparr>ofile := (ofile (start 2))(0 := None),
                           out := [(2, ''open nofile failed'' @ nl)]\<rparr>) \<and>
   runcmd (REDIR (REDIR (EXEC [''jobs''] False) ''a'' {O_WRONLY, O_CREATE, O_TRUNC} 1)
             ''b'' {O_WRONLY, O_CREATE, O_TRUNC} 1)
       ((start 2)\<lparr>open_results := [1, 1]\<rparr>) =
     Returned ((start 2)\<lparr>ofile := (ofile (start 2))(1 \<mapsto> File ''a'' {O_WRONLY, O_CREATE, O_TRUNC})\<rparr>) \<and>
   after_lines 2 3
     ((start 2)\<lparr>ofile := (ofile (start 2))(3 \<mapsto> File ''script'' {O_RDONLY}),
                open_results := [1]\<rparr>)
     (''jobs > out'' @ nl @ ''jobs'' @ nl) =
   Some ((start 2)\<lparr>ofile := (ofile (start 2))(3 \<mapsto> File ''script'' {O_RDONLY},
                         1 \<mapsto> File ''out'' {O_WRONLY, O_CREATE, O_TRUNC})\<rparr>, []) \<and>
   main_loop 3
     ((start 2)\<lparr>ofile := (ofile (start 2))(3 \<mapsto> File ''script'' {O_RDONLY}),
                open_results := [1]\<rparr>)
     (''jobs > out'' @ nl @ ''jobs'' @ nl) =
   Exited 0 ((start 2)\<lparr>ofile := (ofile (start 2))(3 \<mapsto> File ''script'' {O_RDONLY},
                         1 \<mapsto> File ''out'' {O_WRONLY, O_CREATE, O_TRUNC})\<rparr>)"
proof -
  let ?M = "{O_WRONLY, O_CREATE, O_TRUNC}"
  let ?s0 = "(start 2)\<lparr>ofile := (ofile (start 2))(3 \<mapsto> File ''script'' {O_RDONLY}),
                open_results := [1]\<rparr>"
  let ?s2 = "(start 2)\<lparr>ofile := (ofile (start 2))(3 \<mapsto> File ''script'' {O_RDONLY},
                         1 \<mapsto> File ''out'' ?M)\<rparr>"
  have a: "runcmd (REDIR (EXEC [''ls''] False) ''nofile'' {O_RDONLY} 0)
       ((start 2)\<lparr>open_results := [- 1]\<rparr>) =
     Returned ((start 2)\<lparr>ofile := (ofile (start 2))(0 := None),
                           out := [(2, ''open nofile failed'' @ nl)]\<rparr>)"
    using redirect_persists [of "(start 2)\<lparr>open_results := [- 1]\<rparr>" "- 1" "[]"
        "EXEC [''ls''] False" "''nofile''" "{O_RDONLY}" 0]
    by (simp add: start_def)
  have b: "runcmd (REDIR (REDIR (EXEC [''jobs''] False) ''a'' ?M 1) ''b'' ?M 1)
       ((start 2)\<lparr>open_results := [1, 1]\<rparr>) =
     Returned ((start 2)\<lparr>ofile := (ofile (start 2))(1 \<mapsto> File ''a'' ?M)\<rparr>)"
    using redirect_persists [of "(start 2)\<lparr>open_results := [1, 1]\<rparr>" 1 "[1]"
        "REDIR (EXEC [''jobs''] False) ''a'' ?M 1" "''b''" ?M 1]
    by (simp add: runcmd.simps openf_def close_def print_jobs_def start_def numeral_2_eq_2)
  have g1: "getcmd 100 (''jobs > out'' @ nl @ ''jobs'' @ nl) = (0, ''jobs > out'', ''jobs'' @ nl)"
    by code_simp
  have p1: "parsecmd ''jobs > out'' = Inr (REDIR (EXEC [''jobs''] False) ''out'' ?M 1)"
    by code_simp
  have g2: "getcmd 100 (''jobs'' @ nl) = (0, ''jobs'', [])" by code_simp
  have p2: "parsecmd ''jobs'' = Inr (EXEC [''jobs''] False)" by code_simp
  have g3: "getcmd 100 [] = (- 1, [], [])" by code_simp
  have l: "after_lines 2 3 ?s0 (''jobs > out'' @ nl @ ''jobs'' @ nl) = Some (?s2, [])"
    by (simp add: numeral_2_eq_2 next_line_def g1 [simplified] p1 g2 [simplified] p2
        runcmd.simps openf_def close_def print_jobs_def start_def fun_upd_twist)
  have e: "main_loop 3 ?s2 [] = Exited 0 ?s2"
    by (subst main_loop.simps) (simp add: g3)
  from redirect_persists [of ?s0 1 "[]" "EXEC [] False" "[]" "{}" 0 ?s2 "EXEC [] False" 2 3
      "''jobs > out'' @ nl @ ''jobs'' @ nl" ?s2 "[]"] l e
  have m: "main_loop 3 ?s0 (''jobs > out'' @ nl @ ''jobs'' @ nl) = Exited 0 ?s2"
    by simp
  from a b l m show ?thesis by simp
qed

text \<open>
  C9 as stated fails: the shell runs a script of two lines, \<^verbatim>\<open>cat < nofile\<close> and
  \<^verbatim>\<open>jobs > out\<close>, and the host gives the lowest free descriptor. The first line leaves
  descriptor 0 closed (\<^verbatim>\<open>nofile\<close> cannot be opened). The second line closes descriptor 1
  and \<^verbatim>\<open>open\<close> returns 0: descriptor 1 is not reopened, it stays closed, and descriptor 0
  is on \<^verbatim>\<open>out\<close>.
\<close>

theorem redirect_opens_on_other_descriptor:
  "main [''sh'', ''script''] ((start 2)\<lparr>open_results := [3, - 1, 0]\<rparr>)
     (''cat < nofile'' @ nl @ ''jobs > out'' @ nl) =
   Exited 0
     ((start 2)\<lparr>ofile := (ofile (start 2))(3 \<mapsto> File ''script'' {O_RDONLY},
                   0 \<mapsto> File ''out'' {O_WRONLY, O_CREATE, O_TRUNC}, 1 := None),
                 out := [(2, ''open nofile failed'' @ nl)]\<rparr>) \<and>
   runcmd (REDIR (EXEC [''jobs''] False) ''out'' {O_WRONLY, O_CREATE, O_TRUNC} 1)
     ((start 2)\<lparr>ofile := (ofile (start 2))(0 := None), open_results := [0]\<rparr>) =
   Returned
     ((start 2)\<lparr>ofile := (ofile (start 2))
                   (0 \<mapsto> File ''out'' {O_WRONLY, O_CREATE, O_TRUNC}, 1 := None)\<rparr>)"
proof -
  let ?M = "{O_WRONLY, O_CREATE, O_TRUNC}"
  let ?s1 = "(start 2)\<lparr>ofile := (ofile (start 2))(3 \<mapsto> File ''script'' {O_RDONLY}),
                open_results := [- 1, 0]\<rparr>"
  let ?s2 = "(start 2)\<lparr>ofile := (ofile (start 2))(3 \<mapsto> File ''script'' {O_RDONLY}, 0 := None),
                out := [(2, ''open nofile failed'' @ nl)], open_results := [0]\<rparr>"
  let ?s3 = "(start 2)\<lparr>ofile := (ofile (start 2))(3 \<mapsto> File ''script'' {O_RDONLY},
                   0 \<mapsto> File ''out'' ?M, 1 := None),
                 out := [(2, ''open nofile failed'' @ nl)]\<rparr>"
  have g1: "getcmd 100 (''cat < nofile'' @ nl @ ''jobs > out'' @ nl) =
      (0, ''cat < nofile'', ''jobs > out'' @ nl)"
    by code_simp
  have p1: "parsecmd ''cat < nofile'' = Inr (REDIR (EXEC [''cat''] False) ''nofile'' {O_RDONLY} 0)"
    by code_simp
  have g2: "getcmd 100 (''jobs > out'' @ nl) = (0, ''jobs > out'', [])" by code_simp
  have p2: "parsecmd ''jobs > out'' = Inr (REDIR (EXEC [''jobs''] False) ''out'' ?M 1)"
    by code_simp
  have g3: "getcmd 100 [] = (- 1, [], [])" by code_simp
  have m: "main [''sh'', ''script''] ((start 2)\<lparr>open_results := [3, - 1, 0]\<rparr>)
      (''cat < nofile'' @ nl @ ''jobs > out'' @ nl) =
      main_loop 3 ?s1 (''cat < nofile'' @ nl @ ''jobs > out'' @ nl)"
    by (simp add: main_def openf_def start_def)
  have l1: "main_loop 3 ?s1 (''cat < nofile'' @ nl @ ''jobs > out'' @ nl) =
      main_loop 3 ?s2 (''jobs > out'' @ nl)"
    by (subst main_loop.simps)
       (simp add: g1 [simplified] p1 deref_def NUL_def runcmd.simps openf_def close_def
          fprintf_def start_def)
  have l2: "main_loop 3 ?s2 (''jobs > out'' @ nl) = main_loop 3 ?s3 []"
    by (subst main_loop.simps)
       (simp add: g2 [simplified] p2 deref_def NUL_def runcmd.simps openf_def close_def
          print_jobs_def start_def numeral_2_eq_2 fun_upd_twist)
  have l3: "main_loop 3 ?s3 [] = Exited 0 ?s3"
    by (subst main_loop.simps) (simp add: g3)
  have r: "runcmd (REDIR (EXEC [''jobs''] False) ''out'' ?M 1)
     ((start 2)\<lparr>ofile := (ofile (start 2))(0 := None), open_results := [0]\<rparr>) =
   Returned ((start 2)\<lparr>ofile := (ofile (start 2))(0 \<mapsto> File ''out'' ?M, 1 := None)\<rparr>)"
    by (simp add: runcmd.simps openf_def close_def print_jobs_def start_def numeral_2_eq_2
        fun_upd_twist)
  from m l1 l2 l3 r show ?thesis by simp
qed

text \<open>
  C10. \<^verbatim>\<open>add_job\<close> keeps the number of slots (NPROC); when a slot is free it writes the
  pid into the first free slot; when no slot is free it changes nothing of the process,
  so nothing is printed, and when the child (a pid not in the table) is reaped later,
  \<^verbatim>\<open>reap_background_job\<close> changes nothing either: no notice.
\<close>

theorem add_job_full_table:
  "length (add_job pid (bg_jobs st)) = length (bg_jobs st) \<and>
   (0 \<in> set (bg_jobs st) \<longrightarrow>
      add_job pid (bg_jobs st) =
        (bg_jobs st)[length (takeWhile (\<lambda>j. j \<noteq> 0) (bg_jobs st)) := pid]) \<and>
   (0 \<notin> set (bg_jobs st) \<longrightarrow>
      st\<lparr>bg_jobs := add_job pid (bg_jobs st)\<rparr> = st \<and>
      (pid \<notin> set (bg_jobs st) \<longrightarrow>
         reap_background_job pid status (st\<lparr>bg_jobs := add_job pid (bg_jobs st)\<rparr>) = st))"
  by (simp add: add_job_full add_job_first_free reap_background_job_def is_bg_job_iff)

theorem add_job_full_table_witness:
  "add_job 9 [3, 0, 4, 0] = [3, 9, 4, 0] \<and>
   (start 2)\<lparr>bg_jobs := add_job 9 [3, 4]\<rparr> = (start 2)\<lparr>bg_jobs := [3, 4]\<rparr> \<and>
   reap_background_job 9 0 ((start 2)\<lparr>bg_jobs := add_job 9 [3, 4]\<rparr>) =
     (start 2)\<lparr>bg_jobs := [3, 4]\<rparr>"
  using add_job_full_table [of 9 "(start 2)\<lparr>bg_jobs := [3, 0, 4, 0]\<rparr>" 0]
    add_job_full_table [of 9 "(start 2)\<lparr>bg_jobs := [3, 4]\<rparr>" 0]
  by simp

end
